theory Spec2Isabelle
  imports Complex_Main "HOL-Library.Word"
begin

section \<open>JavaScript strings, buffers and regular expressions\<close>

text \<open>
  A JavaScript string is a sequence of UTF-16 code units, a Buffer a sequence of bytes.
  \<open>str\<close> writes an ASCII literal as code units.
\<close>

type_synonym jsstring = "nat list"

type_synonym buffer = "8 word list"

definition str :: "string \<Rightarrow> jsstring" where
  "str cs = map of_char cs"

definition ch :: "char \<Rightarrow> nat" where
  "ch c = of_char c"

text \<open>\<open>\s\<close> of a regular expression, which is also what \<open>String.prototype.trim\<close>
  strips: WhiteSpace and LineTerminator.\<close>

definition is_space :: "nat \<Rightarrow> bool" where
  "is_space c = (c \<in> {9, 10, 11, 12, 13, 32, 160, 5760, 8232, 8233, 8239, 8287, 12288, 65279}
     \<or> (8192 \<le> c \<and> c \<le> 8202))"

definition is_digit :: "nat \<Rightarrow> bool" where
  "is_digit c = (48 \<le> c \<and> c \<le> 57)"

definition is_upper :: "nat \<Rightarrow> bool" where
  "is_upper c = (65 \<le> c \<and> c \<le> 90)"

definition is_lower :: "nat \<Rightarrow> bool" where
  "is_lower c = (97 \<le> c \<and> c \<le> 122)"

text \<open>\<open>\w\<close>: \<open>[A-Za-z0-9_]\<close>.\<close>

definition is_word :: "nat \<Rightarrow> bool" where
  "is_word c = (is_upper c \<or> is_lower c \<or> is_digit c \<or> c = 95)"

definition trim :: "jsstring \<Rightarrow> jsstring" where
  "trim s = rev (dropWhile is_space (rev (dropWhile is_space s)))"

text \<open>\<open>toLowerCase\<close> on the Basic Latin and Latin-1 letters; the strings it is applied to
  here (MIME types, host names of a parsed URL) are ASCII.\<close>

definition lower :: "nat \<Rightarrow> nat" where
  "lower c = (if is_upper c \<or> (192 \<le> c \<and> c \<le> 222 \<and> c \<noteq> 215) then c + 32 else c)"

definition toLowerCase :: "jsstring \<Rightarrow> jsstring" where
  "toLowerCase s = map lower s"

definition startsWith :: "'a list \<Rightarrow> 'a list \<Rightarrow> bool" where
  "startsWith s p = (take (length p) s = p)"

fun js_includes :: "'a list \<Rightarrow> 'a list \<Rightarrow> bool" where
  "js_includes [] p = (p = [])"
| "js_includes (x # xs) p = (startsWith (x # xs) p \<or> js_includes xs p)"

text \<open>A number inside a template literal: its decimal digits.\<close>

fun showNat :: "nat \<Rightarrow> jsstring" where
  "showNat n = (if n < 10 then [48 + n] else showNat (n div 10) @ [48 + n mod 10])"

declare showNat.simps [simp del]

text \<open>A truthy string is a non-empty one; \<open>null\<close> and \<open>undefined\<close> are \<open>None\<close>.\<close>

definition truthy :: "jsstring option \<Rightarrow> bool" where
  "truthy v = (case v of None \<Rightarrow> False | Some s \<Rightarrow> s \<noteq> [])"

subsection \<open>Regular expressions\<close>

text \<open>
  The patterns of the source are written in this syntax. \<open>Rep lo hi r\<close> is the greedy
  quantifier \<open>r{lo,hi}\<close> (\<open>hi = None\<close>: unbounded, so \<open>r*\<close> is \<open>Rep 0 None r\<close>),
  \<open>Bnd\<close> is \<open>\b\<close>, \<open>Ahead r\<close> is \<open>(?=r)\<close> and \<open>NotBehind p\<close> is \<open>(?<![p])\<close>.
\<close>

datatype 'c rx =
    Cls "'c \<Rightarrow> bool"
  | Eps
  | Seq "'c rx" "'c rx"
  | Alt "'c rx" "'c rx"
  | Rep nat "nat option" "'c rx"
  | Bol
  | Eol
  | Bnd "'c \<Rightarrow> bool"
  | Ahead "'c rx"
  | NotBehind "'c \<Rightarrow> bool"

text \<open>
  \<open>ends r s i\<close> lists the positions where a match of \<open>r\<close> that starts at \<open>i\<close> can end,
  in the order in which a backtracking matcher tries them: the first alternative before
  the second, one more iteration of a greedy quantifier before stopping. Its head is the
  match that \<open>RegExp.prototype.exec\<close> reports. Once the minimum of a quantifier is
  reached, an iteration that matches the empty string is not taken.
\<close>

primrec rep_ends :: "(nat \<Rightarrow> nat list) \<Rightarrow> nat \<Rightarrow> nat \<Rightarrow> nat \<Rightarrow> nat list" where
  "rep_ends f 0 lo i = (if lo = 0 then [i] else [])"
| "rep_ends f (Suc h) lo i =
     concat (map (rep_ends f h (lo - 1)) (if lo = 0 then filter (\<lambda>e. i < e) (f i) else f i))
       @ (if lo = 0 then [i] else [])"

primrec ends :: "'c rx \<Rightarrow> 'c list \<Rightarrow> nat \<Rightarrow> nat list" where
  "ends (Cls p) s i = (if i < length s \<and> p (s ! i) then [Suc i] else [])"
| "ends Eps s i = [i]"
| "ends (Seq a b) s i = concat (map (ends b s) (ends a s i))"
| "ends (Alt a b) s i = ends a s i @ ends b s i"
| "ends (Rep lo hi a) s i =
     rep_ends (ends a s) (case hi of Some h \<Rightarrow> h | None \<Rightarrow> lo + (length s - i)) lo i"
| "ends Bol s i = (if i = 0 then [i] else [])"
| "ends Eol s i = (if i = length s then [i] else [])"
| "ends (Bnd w) s i =
     (if (0 < i \<and> w (s ! (i - 1))) \<noteq> (i < length s \<and> w (s ! i)) then [i] else [])"
| "ends (Ahead a) s i = (if ends a s i = [] then [] else [i])"
| "ends (NotBehind p) s i = (if 0 < i \<and> p (s ! (i - 1)) then [] else [i])"

text \<open>\<open>exec\<close> from \<open>lastIndex\<close>: the leftmost start that has a match, and that match's
  end.\<close>

definition rx_exec :: "'c rx \<Rightarrow> 'c list \<Rightarrow> nat \<Rightarrow> (nat \<times> nat) option" where
  "rx_exec r s lastIndex =
     (case find (\<lambda>i. ends r s i \<noteq> []) [lastIndex..<Suc (length s)] of
        None \<Rightarrow> None
      | Some i \<Rightarrow> Some (i, hd (ends r s i)))"

definition rx_test :: "'c rx \<Rightarrow> 'c list \<Rightarrow> bool" where
  "rx_test r s = (rx_exec r s 0 \<noteq> None)"

text \<open>
  The loop \<open>while ((match = re.exec(text)) !== null) { ... }\<close> over a global pattern:
  the matches as (start, end) pairs. \<open>exec\<close> leaves \<open>lastIndex\<close> at the end of the match,
  so an empty match is found again for ever: the loop does not return, which is \<open>None\<close>.
\<close>

function execAll :: "'c rx \<Rightarrow> 'c list \<Rightarrow> nat \<Rightarrow> (nat \<times> nat) list option" where
  "execAll r s lastIndex =
     (if length s < lastIndex then Some []
      else case rx_exec r s lastIndex of
        None \<Rightarrow> Some []
      | Some (i, e) \<Rightarrow>
          if e \<le> lastIndex then None
          else map_option ((#) (i, e)) (execAll r s e))"
  by pat_completeness auto
termination
  by (relation "measure (\<lambda>(r, s, lastIndex). Suc (length s) - lastIndex)") auto

declare execAll.simps [simp del]

text \<open>Shorthands for writing patterns.\<close>

definition lit :: "char \<Rightarrow> nat rx" where
  "lit c = Cls (\<lambda>x. x = ch c)"

text \<open>A literal under the \<open>i\<close> flag: an ASCII letter matches both of its cases.\<close>

definition lit_i :: "char \<Rightarrow> nat rx" where
  "lit_i c = Cls (\<lambda>x. lower x = lower (ch c) \<and> x < 128)"

definition one_of :: "string \<Rightarrow> nat \<Rightarrow> bool" where
  "one_of cs c = (c \<in> set (str cs))"

fun seqs :: "'c rx list \<Rightarrow> 'c rx" where
  "seqs [] = Eps"
| "seqs [r] = r"
| "seqs (r # rs) = Seq r (seqs rs)"

definition opt :: "'c rx \<Rightarrow> 'c rx" where
  "opt r = Rep 0 (Some 1) r"

definition star :: "'c rx \<Rightarrow> 'c rx" where
  "star r = Rep 0 None r"

definition plus :: "'c rx \<Rightarrow> 'c rx" where
  "plus r = Rep 1 None r"

definition times :: "nat \<Rightarrow> 'c rx \<Rightarrow> 'c rx" where
  "times n r = Rep n (Some n) r"

section \<open>File validation (FileValidationService)\<close>

text \<open>
  The service calls three libraries: \<open>file-type\<close> (the MIME type from the magic number),
  \<open>sharp\<close> (image metadata and a trial resize) and \<open>pdf-lib\<close> (the document structure).
  Their answers for a buffer are parameters of the model. A call either returns or throws;
  a thrown value is an \<open>Error\<close> with its message, or something else.
\<close>

datatype thrown = ErrorObj jsstring | NonError

datatype detect_outcome = Detected jsstring | Undetected | DetectThrew thrown

datatype metadata_outcome = Metadata "nat option" "nat option" | MetadataThrew thrown

datatype pdf_outcome = Loaded nat | LoadThrew thrown

record libs =
  fileType_fromBuffer :: "buffer \<Rightarrow> detect_outcome"
  sharp_metadata :: "buffer \<Rightarrow> metadata_outcome"
  sharp_resize :: "buffer \<Rightarrow> thrown option"
  PDFDocument_load :: "buffer \<Rightarrow> pdf_outcome"

record ValidationResult =
  isValid :: bool
  error :: "jsstring option"
  detectedType :: "jsstring option"
  sanitizedBuffer :: "buffer option"

text \<open>What the service writes with \<open>console.warn\<close> and \<open>console.error\<close>; its
  \<open>console.log\<close> progress lines are not modelled.\<close>

datatype log_entry = Warn jsstring | Err jsstring thrown

definition MAX_FILE_SIZE :: nat where
  "MAX_FILE_SIZE = 50 * 1024 * 1024"

definition MAX_IMAGE_PIXELS :: nat where
  "MAX_IMAGE_PIXELS = 178956970"

definition MAX_IMAGE_DIMENSION :: nat where
  "MAX_IMAGE_DIMENSION = 50000"

definition MAX_PDF_PAGES :: nat where
  "MAX_PDF_PAGES = 500"

text \<open>The keys of \<open>ALLOWED_TYPES\<close>.\<close>

definition ALLOWED_TYPES :: "jsstring list" where
  "ALLOWED_TYPES = [str ''image/png'', str ''image/jpeg'', str ''image/tiff'', str ''image/bmp'',
     str ''image/webp'', str ''application/pdf'']"

definition invalid :: "jsstring \<Rightarrow> ValidationResult" where
  "invalid msg = \<lparr>isValid = False, error = Some msg, detectedType = None, sanitizedBuffer = None\<rparr>"

definition valid :: "jsstring \<Rightarrow> buffer \<Rightarrow> ValidationResult" where
  "valid mime buf = \<lparr>isValid = True, error = None, detectedType = Some mime, sanitizedBuffer = Some buf\<rparr>"

text \<open>\<open>error instanceof Error ? error.message : fallback\<close>\<close>

definition messageOf :: "thrown \<Rightarrow> jsstring \<Rightarrow> jsstring" where
  "messageOf t fallback = (case t of ErrorObj m \<Rightarrow> m | NonError \<Rightarrow> fallback)"

definition normalizeMimeType :: "jsstring \<Rightarrow> jsstring" where
  "normalizeMimeType mimeType =
     (let normalized = trim (toLowerCase mimeType) in
      if normalized = str ''image/jpg'' then str ''image/jpeg''
      else if normalized = str ''image/tif'' then str ''image/tiff''
      else normalized)"

definition falsy :: "nat option \<Rightarrow> bool" where
  "falsy v = (v = None \<or> v = Some 0)"

definition validateImage :: "libs \<Rightarrow> buffer \<Rightarrow> jsstring \<Rightarrow> ValidationResult" where
  "validateImage L buf mimeType =
     (case sharp_metadata L buf of
        MetadataThrew t \<Rightarrow>
          invalid (str ''Image validation failed: '' @ messageOf t (str ''Malformed image''))
      | Metadata width height \<Rightarrow>
          if falsy width \<or> falsy height then invalid (str ''Unable to read image dimensions'')
          else
            let w = the width; h = the height in
            if w > MAX_IMAGE_DIMENSION \<or> h > MAX_IMAGE_DIMENSION then
              invalid (str ''Image dimensions '' @ showNat w @ str ''x'' @ showNat h
                @ str '' exceed maximum '' @ showNat MAX_IMAGE_DIMENSION)
            else if w * h > MAX_IMAGE_PIXELS then
              invalid (str ''Image has '' @ showNat (w * h) @ str '' pixels, exceeds maximum ''
                @ showNat MAX_IMAGE_PIXELS)
            else
              (case sharp_resize L buf of
                 Some t \<Rightarrow>
                   invalid (str ''Image validation failed: ''
                     @ messageOf t (str ''Malformed image''))
               | None \<Rightarrow> valid mimeType buf))"

text \<open>\<open>buffer.toString('binary', 0, Math.min(buffer.length, 1024 * 1024))\<close>: one code unit
  per byte.\<close>

definition jsIndicators :: "jsstring list" where
  "jsIndicators = [str ''/JavaScript'', str ''/JS'', str ''/OpenAction'', str ''/AA'']"

definition checkPDFForJavaScript :: "buffer \<Rightarrow> bool" where
  "checkPDFForJavaScript buf =
     (let pdfString = map unat (take (min (length buf) (1024 * 1024)) buf) in
      list_ex (\<lambda>indicator. js_includes pdfString indicator) jsIndicators)"

text \<open>The warning about active content; it begins with the warning sign U+26A0 U+FE0F.\<close>

definition jsWarning :: "nat \<Rightarrow> log_entry" where
  "jsWarning pageCount =
     Warn ([9888, 65039] @ str ''  PDF contains JavaScript - allowing with warning (''
       @ showNat pageCount @ str '' pages)'')"

definition validatePDF :: "libs \<Rightarrow> buffer \<Rightarrow> ValidationResult \<times> log_entry list" where
  "validatePDF L buf =
     (case PDFDocument_load L buf of
        Loaded pageCount \<Rightarrow>
          if pageCount = 0 then (invalid (str ''PDF has no pages''), [])
          else if pageCount > MAX_PDF_PAGES then
            (invalid (str ''PDF has '' @ showNat pageCount @ str '' pages, exceeds maximum ''
               @ showNat MAX_PDF_PAGES), [])
          else
            (valid (str ''application/pdf'') buf,
             if checkPDFForJavaScript buf then [jsWarning pageCount] else [])
      | LoadThrew t \<Rightarrow>
          let errorMsg = messageOf t (str ''Unknown error'') in
          if js_includes errorMsg (str ''encryption'') then
            (invalid (str ''Encrypted PDFs are not supported''), [])
          else (invalid (str ''PDF validation failed: '' @ errorMsg), []))"

definition validateFile :: "libs \<Rightarrow> buffer \<Rightarrow> jsstring \<Rightarrow> ValidationResult \<times> log_entry list" where
  "validateFile L buf claimedMimeType =
     (if length buf > MAX_FILE_SIZE then
        (invalid (str ''File size '' @ showNat (length buf) @ str '' bytes exceeds maximum ''
           @ showNat MAX_FILE_SIZE @ str '' bytes''), [])
      else
        case fileType_fromBuffer L buf of
          DetectThrew t \<Rightarrow>
            (invalid (str ''Validation error: '' @ messageOf t (str ''Unknown error'')), [])
        | Undetected \<Rightarrow>
            (invalid (str ''Unable to detect file type - file may be corrupted or invalid''), [])
        | Detected mime \<Rightarrow>
            if mime \<notin> set ALLOWED_TYPES then
              (invalid (str ''File type '' @ mime @ str '' is not supported''), [])
            else if normalizeMimeType claimedMimeType \<noteq> normalizeMimeType mime then
              (invalid (str ''File type mismatch: claimed '' @ claimedMimeType
                 @ str '' but detected '' @ mime), [])
            else if startsWith mime (str ''image/'') then (validateImage L buf mime, [])
            else if mime = str ''application/pdf'' then validatePDF L buf
            else (valid mime buf, []))"

section \<open>The job table\<close>

datatype JobStatus = PENDING | PROCESSING | COMPLETED | FAILED

text \<open>A row of the table \<open>Job\<close> (the Prisma schema). Timestamps are milliseconds since
  the epoch, as \<open>Date.getTime\<close> gives them.\<close>

record Job =
  jobId :: jsstring
  status :: JobStatus
  documentType :: jsstring
  email :: jsstring
  callbackWebhook :: "jsstring option"
  fileData :: buffer
  fileName :: jsstring
  mimeType :: jsstring
  ocrResult :: "jsstring option"
  errorMessage :: "jsstring option"
  createdAt :: int
  updatedAt :: int
  processedAt :: "int option"

text \<open>The table is the list of its rows, in the store's own order; \<open>id\<close> is the primary
  key.\<close>

type_synonym store = "Job list"

definition findUnique :: "store \<Rightarrow> jsstring \<Rightarrow> Job option" where
  "findUnique st i = find (\<lambda>j. jobId j = i) st"

text \<open>\<open>findFirst({ where: { status: 'PENDING' }, orderBy: { createdAt: 'asc' } })\<close>: the
  pending row with the least \<open>createdAt\<close>, the earliest row of the table among equals.\<close>

definition findFirstPending :: "store \<Rightarrow> Job option" where
  "findFirstPending st =
     (case filter (\<lambda>j. status j = PENDING) st of
        [] \<Rightarrow> None
      | j # js \<Rightarrow> Some (foldl (\<lambda>best k. if createdAt k < createdAt best then k else best) j js))"

text \<open>\<open>prisma.job.update({ where: { id }, data })\<close> at time \<open>now\<close>: \<open>data\<close> is the change
  of the fields, \<open>updatedAt\<close> is set by \<open>@updatedAt\<close>, and the updated row is returned. It
  throws when no row has the id, which is \<open>None\<close>.\<close>

definition update :: "store \<Rightarrow> jsstring \<Rightarrow> (Job \<Rightarrow> Job) \<Rightarrow> int \<Rightarrow> (Job \<times> store) option" where
  "update st i data now =
     (case findUnique st i of
        None \<Rightarrow> None
      | Some j \<Rightarrow>
          Some ((data j)\<lparr>updatedAt := now\<rparr>,
                map (\<lambda>k. if jobId k = i then (data k)\<lparr>updatedAt := now\<rparr> else k) st))"

section \<open>The worker (processNextJob) and the webhook\<close>

datatype fetch_outcome = Response nat | FetchThrew thrown

text \<open>The POST that \<open>sendCallback\<close> issues: the URL and the fields of the JSON body.\<close>

record webhook_request =
  req_url :: jsstring
  req_jobId :: jsstring
  req_email :: jsstring
  req_ocrResult :: jsstring
  req_statusUrl :: jsstring
  req_timestamp :: int

text \<open>What the worker calls besides the store: the validation libraries, the OCR service
  raced against the five-minute timer (the serialized result, or the error thrown),
  \<open>fetch\<close>, the environment variable \<open>APP_DOMAIN\<close> and the clock at the claim, at the
  final write and at the webhook.\<close>

record world =
  libraries :: libs
  processDocument :: "buffer \<Rightarrow> jsstring \<Rightarrow> thrown + jsstring"
  fetch :: "webhook_request \<Rightarrow> fetch_outcome"
  APP_DOMAIN :: "jsstring option"
  claimTime :: int
  finishTime :: int
  webhookTime :: int

text \<open>\<open>response.ok\<close>\<close>

definition response_ok :: "nat \<Rightarrow> bool" where
  "response_ok code = (200 \<le> code \<and> code \<le> 299)"

text \<open>\<open>sendCallback\<close> returns nothing and catches everything: its result here is what it
  sent and what it wrote to the error log.\<close>

definition sendCallback ::
  "world \<Rightarrow> jsstring \<Rightarrow> jsstring \<Rightarrow> jsstring \<Rightarrow> jsstring \<Rightarrow> webhook_request list \<times> log_entry list" where
  "sendCallback W webhookUrl jid result mail =
     (let domain = (if truthy (APP_DOMAIN W) then the (APP_DOMAIN W) else str ''http://localhost:3040'');
          statusUrl = domain @ str ''/job/'' @ jid;
          request = \<lparr>req_url = webhookUrl, req_jobId = jid, req_email = mail, req_ocrResult = result,
                     req_statusUrl = statusUrl, req_timestamp = webhookTime W\<rparr>;
          failed = (\<lambda>t. [Err (str ''Failed to send webhook for job '' @ jid @ str '':'') t])
      in case fetch W request of
           FetchThrew t \<Rightarrow> ([request], failed t)
         | Response code \<Rightarrow>
             if response_ok code then ([request], [])
             else ([request], failed (ErrorObj (str ''Webhook returned status '' @ showNat code))))"

text \<open>The transaction that claims the oldest pending job, when nothing else writes the
  table between its two statements.\<close>

definition claim :: "store \<Rightarrow> int \<Rightarrow> (Job \<times> store) option" where
  "claim st now =
     (case findFirstPending st of
        None \<Rightarrow> None
      | Some pendingJob \<Rightarrow> update st (jobId pendingJob) (\<lambda>j. j\<lparr>status := PROCESSING\<rparr>) now)"

text \<open>The two final writes.\<close>

definition finalizeCompleted :: "store \<Rightarrow> jsstring \<Rightarrow> jsstring \<Rightarrow> int \<Rightarrow> (Job \<times> store) option" where
  "finalizeCompleted st i resultJson now =
     update st i (\<lambda>j. j\<lparr>status := COMPLETED, ocrResult := Some resultJson, processedAt := Some now\<rparr>) now"

definition finalizeFailed :: "store \<Rightarrow> jsstring \<Rightarrow> jsstring \<Rightarrow> int \<Rightarrow> (Job \<times> store) option" where
  "finalizeFailed st i message now =
     update st i (\<lambda>j. j\<lparr>status := FAILED, errorMessage := Some message, processedAt := Some now\<rparr>) now"

text \<open>The result of a run: what \<open>processNextJob\<close> returns, the table afterwards, the
  webhook requests sent and the error log.\<close>

record run =
  returned :: bool
  table :: store
  sent :: "webhook_request list"
  logged :: "log_entry list"

text \<open>What \<open>prisma.job.update\<close> throws when the row is gone (error P2025).\<close>

definition recordNotFound :: thrown where
  "recordNotFound = ErrorObj (str ''Record to update not found.'')"

text \<open>The body of the inner \<open>try\<close>, for a claimed job: \<open>Inl\<close> is the value it throws,
  with what was logged before.\<close>

definition tryJob :: "world \<Rightarrow> store \<Rightarrow> Job \<Rightarrow> (thrown \<times> log_entry list) + run" where
  "tryJob W st job =
     (let (validationResult, warnings) = validateFile (libraries W) (fileData job) (mimeType job) in
      if \<not> isValid validationResult then
        Inl (ErrorObj (str ''File validation failed: ''
               @ (case error validationResult of None \<Rightarrow> str ''undefined'' | Some e \<Rightarrow> e)),
             warnings)
      else
        case processDocument W
               (case sanitizedBuffer validationResult of Some b \<Rightarrow> b | None \<Rightarrow> fileData job)
               (mimeType job) of
          Inl t \<Rightarrow> Inl (t, warnings)
        | Inr resultJson \<Rightarrow>
            (case finalizeCompleted st (jobId job) resultJson (finishTime W) of
               None \<Rightarrow> Inl (recordNotFound, warnings)
             | Some (_, st') \<Rightarrow>
                 if truthy (callbackWebhook job) then
                   let (requests, errors) =
                         sendCallback W (the (callbackWebhook job)) (jobId job) resultJson (email job)
                   in Inr \<lparr>returned = True, table = st', sent = requests, logged = warnings @ errors\<rparr>
                 else Inr \<lparr>returned = True, table = st', sent = [], logged = warnings\<rparr>))"

text \<open>
  A run of \<open>processNextJob\<close>. The final write comes after the validation and the OCR of
  the file, up to five minutes after the claim, and the worker holds no lock on the row
  meanwhile: \<open>others\<close> is what the other writers of the table (the admin routes, other
  workers) do to it in that time, and the final write is made by \<open>id\<close> to the table as
  they leave it. The job that the worker validates, reads and reports is the row as the
  claim returned it.
\<close>

definition processNextJob :: "world \<Rightarrow> (store \<Rightarrow> store) \<Rightarrow> store \<Rightarrow> run" where
  "processNextJob W others st =
     (case claim st (claimTime W) of
        None \<Rightarrow> \<lparr>returned = False, table = st, sent = [], logged = []\<rparr>
      | Some (job, claimed) \<Rightarrow>
          let st1 = others claimed in
          (case tryJob W st1 job of
             Inr r \<Rightarrow> r
           | Inl (t, warnings) \<Rightarrow>
               let failure = Err (str ''Job '' @ jobId job @ str '' failed:'') t in
               (case finalizeFailed st1 (jobId job) (messageOf t (str ''Unknown error'')) (finishTime W) of
                  Some (_, st2) \<Rightarrow>
                    \<lparr>returned = True, table = st2, sent = [], logged = warnings @ [failure]\<rparr>
                | None \<Rightarrow>
                    \<lparr>returned = False, table = st1, sent = [],
                     logged = warnings @ [failure, Err (str ''Error processing job:'') recordNotFound]\<rparr>)))"

subsection \<open>Workers side by side\<close>

text \<open>
  The claim of one worker, statement by statement. The transaction is opened with no
  isolation level, so it runs at the default of the database (READ COMMITTED for
  PostgreSQL): a statement sees what was committed before it, \<open>findFirst\<close> takes no lock,
  and \<open>update\<close> selects the row by \<open>id\<close> alone. A worker has begun, has found a pending
  row, has obtained the updated row, has found no pending row, or its update threw.
\<close>

datatype claimer = Begun | Found Job | Obtained Job | NoJob | UpdateThrew

definition claimerStep :: "int \<Rightarrow> claimer \<Rightarrow> store \<Rightarrow> claimer \<times> store" where
  "claimerStep now c st =
     (case c of
        Begun \<Rightarrow>
          (case findFirstPending st of
             None \<Rightarrow> (NoJob, st)
           | Some pendingJob \<Rightarrow> (Found pendingJob, st))
      | Found pendingJob \<Rightarrow>
          (case update st (jobId pendingJob) (\<lambda>j. j\<lparr>status := PROCESSING\<rparr>) now of
             None \<Rightarrow> (UpdateThrew, st)
           | Some (job, st') \<Rightarrow> (Obtained job, st'))
      | _ \<Rightarrow> (c, st))"

text \<open>A schedule names, statement after statement, the worker whose statement runs next;
  the clock advances by one with each.\<close>

fun runSchedule :: "nat list \<Rightarrow> int \<Rightarrow> claimer list \<times> store \<Rightarrow> claimer list \<times> store" where
  "runSchedule [] now cfg = cfg"
| "runSchedule (w # ws) now (cs, st) =
     (if w < length cs then
        let (c, st') = claimerStep now (cs ! w) st in runSchedule ws (now + 1) (cs[w := c], st')
      else runSchedule ws (now + 1) (cs, st))"

section \<open>The HTTP routes\<close>

datatype json =
    JNull
  | JBool bool
  | JNum int
  | JStr jsstring
  | JDate int
  | JObj "(jsstring \<times> json) list"
  | JArr "json list"

text \<open>A response: the status code and the JSON body.\<close>

datatype response = Resp nat json

definition jstatus :: "JobStatus \<Rightarrow> json" where
  "jstatus s = JStr (case s of PENDING \<Rightarrow> str ''PENDING'' | PROCESSING \<Rightarrow> str ''PROCESSING''
     | COMPLETED \<Rightarrow> str ''COMPLETED'' | FAILED \<Rightarrow> str ''FAILED'')"

definition jopt :: "jsstring option \<Rightarrow> json" where
  "jopt v = (case v of None \<Rightarrow> JNull | Some s \<Rightarrow> JStr s)"

definition jdate :: "int option \<Rightarrow> json" where
  "jdate v = (case v of None \<Rightarrow> JNull | Some d \<Rightarrow> JDate d)"

definition bodyOf :: "response \<Rightarrow> json" where
  "bodyOf r = (case r of Resp code b \<Rightarrow> b)"

definition keys :: "json \<Rightarrow> jsstring list" where
  "keys b = (case b of JObj kvs \<Rightarrow> map fst kvs | _ \<Rightarrow> [])"

subsection \<open>GET /api/status/[id]\<close>

definition is_hex :: "nat \<Rightarrow> bool" where
  "is_hex c = (is_digit c \<or> (97 \<le> lower c \<and> lower c \<le> 102 \<and> c < 128))"

text \<open>\<open>/^[0-9a-f]{8}-[0-9a-f]{4}-[0-9a-f]{4}-[0-9a-f]{4}-[0-9a-f]{12}$/i\<close>\<close>

definition uuidRegex :: "nat rx" where
  "uuidRegex = seqs [Bol, times 8 (Cls is_hex), lit CHR ''-'', times 4 (Cls is_hex), lit CHR ''-'',
     times 4 (Cls is_hex), lit CHR ''-'', times 4 (Cls is_hex), lit CHR ''-'',
     times 12 (Cls is_hex), Eol]"

text \<open>The fields of every response for a job that exists.\<close>

definition baseKeys :: "jsstring list" where
  "baseKeys = [str ''id'', str ''status'', str ''documentType'', str ''email'', str ''createdAt'',
     str ''updatedAt'']"

definition statusGET :: "store \<Rightarrow> jsstring \<Rightarrow> response" where
  "statusGET st i =
     (if \<not> rx_test uuidRegex i then Resp 400 (JObj [(str ''error'', JStr (str ''Invalid job ID format''))])
      else case findUnique st i of
        None \<Rightarrow> Resp 404 (JObj [(str ''error'', JStr (str ''Job not found''))])
      | Some job \<Rightarrow>
          Resp 200 (JObj
            ([(str ''id'', JStr (jobId job)),
              (str ''status'', jstatus (status job)),
              (str ''documentType'', JStr (documentType job)),
              (str ''email'', JStr (email job)),
              (str ''createdAt'', JDate (createdAt job)),
              (str ''updatedAt'', JDate (updatedAt job))]
             @ (if status job = COMPLETED then
                  [(str ''ocrResult'', jopt (ocrResult job)),
                   (str ''processedAt'', jdate (processedAt job))]
                else [])
             @ (if status job = FAILED then
                  [(str ''errorMessage'', jopt (errorMessage job)),
                   (str ''processedAt'', jdate (processedAt job))]
                else []))))"

subsection \<open>GET /api/admin/jobs and GET /api/admin/stats\<close>

text \<open>What the listing computes for each job it returns, at time \<open>now\<close>.\<close>

definition processingTime :: "int \<Rightarrow> Job \<Rightarrow> int" where
  "processingTime now job =
     (case processedAt job of
        Some p \<Rightarrow> p - createdAt job
      | None \<Rightarrow> now - createdAt job)"

definition isStuck :: "int \<Rightarrow> Job \<Rightarrow> bool" where
  "isStuck now job = (status job = PROCESSING \<and> processingTime now job > 10 * 60 * 1000)"

definition age :: "int \<Rightarrow> Job \<Rightarrow> int" where
  "age now job = now - createdAt job"

definition jobsWithMetadata :: "int \<Rightarrow> Job list \<Rightarrow> (Job \<times> int \<times> bool \<times> int) list" where
  "jobsWithMetadata now jobs = map (\<lambda>job. (job, processingTime now job, isStuck now job, age now job)) jobs"

text \<open>The stuck jobs of the statistics: the query, and the rows it reports as
  (id, fileName, updatedAt, stuckFor).\<close>

definition stuckJobsQuery :: "store \<Rightarrow> int \<Rightarrow> Job list" where
  "stuckJobsQuery st now =
     (let tenMinutesAgo = now - 10 * 60 * 1000 in
      filter (\<lambda>j. status j = PROCESSING \<and> updatedAt j < tenMinutesAgo) st)"

definition stuckJobs :: "store \<Rightarrow> int \<Rightarrow> (jsstring \<times> jsstring \<times> int \<times> int) list" where
  "stuckJobs st now =
     map (\<lambda>job. (jobId job, fileName job, updatedAt job, now - updatedAt job)) (stuckJobsQuery st now)"

subsection \<open>PATCH /api/admin/jobs/[id]\<close>

text \<open>The two fields read from the body, when they are strings or absent.\<close>

record patch_body =
  body_status :: "jsstring option"
  body_errorMessage :: "jsstring option"

definition validStatuses :: "(jsstring \<times> JobStatus) list" where
  "validStatuses = [(str ''PENDING'', PENDING), (str ''PROCESSING'', PROCESSING),
     (str ''COMPLETED'', COMPLETED), (str ''FAILED'', FAILED)]"

definition updateData :: "JobStatus option \<Rightarrow> jsstring option \<Rightarrow> int \<Rightarrow> Job \<Rightarrow> Job" where
  "updateData st msg now j =
     (case st of
        None \<Rightarrow> j
      | Some s \<Rightarrow>
          let j1 = j\<lparr>status := s\<rparr>;
              j2 = (if s = PENDING then j1\<lparr>errorMessage := None, processedAt := None\<rparr> else j1)
          in if s = FAILED \<and> truthy msg then j2\<lparr>errorMessage := msg, processedAt := Some now\<rparr> else j2)"

definition jobPATCH :: "store \<Rightarrow> jsstring \<Rightarrow> patch_body \<Rightarrow> int \<Rightarrow> response \<times> store" where
  "jobPATCH st i body now =
     (if truthy (body_status body) \<and> map_of validStatuses (the (body_status body)) = None then
        (Resp 400 (JObj [(str ''error'', JStr (str ''Invalid status''))]), st)
      else
        let s = (if truthy (body_status body) then map_of validStatuses (the (body_status body)) else None)
        in case update st i (updateData s (body_errorMessage body) now) now of
             None \<Rightarrow> (Resp 500 (JObj [(str ''error'', JStr (str ''Failed to update job''))]), st)
           | Some (job, st') \<Rightarrow>
               (Resp 200 (JObj
                  [(str ''message'', JStr (str ''Job updated successfully'')),
                   (str ''job'', JObj
                      [(str ''id'', JStr (jobId job)),
                       (str ''status'', jstatus (status job)),
                       (str ''documentType'', JStr (documentType job)),
                       (str ''email'', JStr (email job)),
                       (str ''fileName'', JStr (fileName job)),
                       (str ''createdAt'', JDate (createdAt job)),
                       (str ''updatedAt'', JDate (updatedAt job)),
                       (str ''processedAt'', jdate (processedAt job)),
                       (str ''errorMessage'', jopt (errorMessage job))])]), st'))"

subsection \<open>The webhook URL of an upload (uploadSchema)\<close>

text \<open>\<open>new URL(url)\<close> is the platform's parser, a parameter here: \<open>None\<close> when it
  throws, else the parts of the URL that the validator reads.\<close>

record URL =
  protocol :: jsstring
  hostname :: jsstring

definition blockedHostnames :: "jsstring list" where
  "blockedHostnames = [str ''localhost'', str ''127.0.0.1'', str ''0.0.0.0'', str ''::1'', str ''[::1]'']"

text \<open>\<open>/^172\.(1[6-9]|2[0-9]|3[0-1])\./\<close>\<close>

definition private172 :: "nat rx" where
  "private172 = seqs [Bol, lit CHR ''1'', lit CHR ''7'', lit CHR ''2'', lit CHR ''.'',
     Alt (Seq (lit CHR ''1'') (Cls (\<lambda>c. 54 \<le> c \<and> c \<le> 57)))
       (Alt (Seq (lit CHR ''2'') (Cls is_digit))
            (Seq (lit CHR ''3'') (Cls (\<lambda>c. 48 \<le> c \<and> c \<le> 49)))),
     lit CHR ''.'']"

text \<open>\<open>z.string().url(...)\<close> asks that the string parses; \<open>refine\<close> then applies the
  function below.\<close>

definition webhookRefine :: "(jsstring \<Rightarrow> URL option) \<Rightarrow> jsstring \<Rightarrow> bool" where
  "webhookRefine parseURL url =
     (case parseURL url of
        None \<Rightarrow> False
      | Some parsed \<Rightarrow>
          if toLowerCase (hostname parsed) \<in> set blockedHostnames then False
          else
            let host = toLowerCase (hostname parsed) in
            if startsWith host (str ''192.168.'') \<or> startsWith host (str ''10.'')
               \<or> rx_test private172 host \<or> startsWith host (str ''169.254.'')
            then False
            else True)"

definition webhookUrlValidator :: "(jsstring \<Rightarrow> URL option) \<Rightarrow> jsstring \<Rightarrow> bool" where
  "webhookUrlValidator parseURL url = (parseURL url \<noteq> None \<and> webhookRefine parseURL url)"

section \<open>The OCR result tree and its enrichment (OCRService)\<close>

subsection \<open>Numbers\<close>

text \<open>
  A number is an IEEE 754 double: a finite double is the real that it denotes (the two
  zeros are one value here; \<open>JSON.stringify\<close> writes both as \<open>0\<close>), and there are the two
  infinities and NaN. An arithmetic operation rounds its exact result to the nearest
  double, a tie to the one whose significand is even, and to an infinity from
  \<open>2^1024 - 2^970\<close> on.
\<close>

datatype number = Finite real | PosInfinity | NegInfinity | NaN

text \<open>The exponent \<open>e\<close> of the binade \<open>2^e \<le> |x| < 2^(e+1)\<close> that holds \<open>x\<close>, kept between
  -1022 (the subnormal numbers are spaced like the least normal ones) and 1023.\<close>

fun binadeFrom :: "nat \<Rightarrow> int \<Rightarrow> real \<Rightarrow> int" where
  "binadeFrom 0 e x = e"
| "binadeFrom (Suc n) e x = (if \<bar>x\<bar> < 2 powi (e + 1) then e else binadeFrom n (e + 1) x)"

definition binade :: "real \<Rightarrow> int" where
  "binade x = binadeFrom 2045 (- 1022) x"

text \<open>The nearest integer, a tie going to the even one.\<close>

definition roundEven :: "real \<Rightarrow> int" where
  "roundEven x =
     (let f = \<lfloor>x\<rfloor>; d = x - of_int f in
      if d < 1 / 2 then f else if 1 / 2 < d then f + 1 else if even f then f else f + 1)"

text \<open>The double of an exact result: a significand of 53 bits at the exponent of the
  binade.\<close>

definition toDouble :: "real \<Rightarrow> number" where
  "toDouble x =
     (let e = binade x - 52; m = roundEven (x / 2 powi e) in
      if binade x = 1023 \<and> 2 ^ 53 \<le> \<bar>m\<bar> then (if 0 < x then PosInfinity else NegInfinity)
      else Finite (of_int m * 2 powi e))"

definition infinity :: "bool \<Rightarrow> number" where
  "infinity positive = (if positive then PosInfinity else NegInfinity)"

text \<open>\<open>a - b\<close> and \<open>a * b\<close>\<close>

definition numSub :: "number \<Rightarrow> number \<Rightarrow> number" where
  "numSub a b =
     (case (a, b) of
        (NaN, _) \<Rightarrow> NaN
      | (_, NaN) \<Rightarrow> NaN
      | (Finite x, Finite y) \<Rightarrow> toDouble (x - y)
      | (Finite x, PosInfinity) \<Rightarrow> NegInfinity
      | (Finite x, NegInfinity) \<Rightarrow> PosInfinity
      | (PosInfinity, PosInfinity) \<Rightarrow> NaN
      | (PosInfinity, _) \<Rightarrow> PosInfinity
      | (NegInfinity, NegInfinity) \<Rightarrow> NaN
      | (NegInfinity, _) \<Rightarrow> NegInfinity)"

definition numMul :: "number \<Rightarrow> number \<Rightarrow> number" where
  "numMul a b =
     (case (a, b) of
        (NaN, _) \<Rightarrow> NaN
      | (_, NaN) \<Rightarrow> NaN
      | (Finite x, Finite y) \<Rightarrow> toDouble (x * y)
      | (Finite x, PosInfinity) \<Rightarrow> if x = 0 then NaN else infinity (0 < x)
      | (Finite x, NegInfinity) \<Rightarrow> if x = 0 then NaN else infinity (x < 0)
      | (PosInfinity, Finite y) \<Rightarrow> if y = 0 then NaN else infinity (0 < y)
      | (NegInfinity, Finite y) \<Rightarrow> if y = 0 then NaN else infinity (y < 0)
      | (PosInfinity, PosInfinity) \<Rightarrow> PosInfinity
      | (PosInfinity, NegInfinity) \<Rightarrow> NegInfinity
      | (NegInfinity, PosInfinity) \<Rightarrow> NegInfinity
      | (NegInfinity, NegInfinity) \<Rightarrow> PosInfinity)"

text \<open>\<open>Math.round\<close>: the nearest integer, a half going up; it is computed exactly.\<close>

definition Math_round :: "number \<Rightarrow> number" where
  "Math_round a = (case a of Finite x \<Rightarrow> Finite (of_int \<lfloor>x + 1 / 2\<rfloor>) | _ \<Rightarrow> a)"

subsection \<open>The tree\<close>

record BoundingBox =
  x0 :: number
  y0 :: number
  x1 :: number
  y1 :: number
  width :: number
  height :: number

datatype contentType = CT_text | CT_number | CT_date | CT_email | CT_url | CT_currency | CT_phone

datatype alignment = A_left | A_center | A_right | A_justified

datatype textType = T_heading | T_body | T_list | T_caption | T_footer

datatype blockType = B_text | B_heading | B_list | B_table | B_header | B_footer

text \<open>Every node of the tree has a text (\<open>content\<close> here), a confidence and a box.\<close>

record Node =
  content :: jsstring
  confidence :: real
  bbox :: BoundingBox

record Word = Node +
  fontSize :: "number option"
  contentType :: "contentType option"

record Line = Node +
  words :: "Word list"
  baseline :: "real option"
  line_fontSize :: "number option"
  alignment :: "alignment option"

record Paragraph = Node +
  lines :: "Line list"
  textType :: "textType option"
  level :: "nat option"
  indent :: "real option"

record Block = Node +
  paragraphs :: "Paragraph list"
  blockType :: "blockType option"
  readingOrder :: "nat option"

text \<open>\<open>Math.round(bbox.height * 0.75)\<close>\<close>

definition estimateFontSize :: "BoundingBox \<Rightarrow> number" where
  "estimateFontSize b = Math_round (numMul (height b) (Finite 0.75))"

text \<open>The patterns of \<open>detectContentType\<close>, in the order of the source.\<close>

definition notSpaceAt :: "nat \<Rightarrow> bool" where
  "notSpaceAt c = (\<not> is_space c \<and> c \<noteq> ch CHR ''@'')"

text \<open>\<open>/^[^\s@]+@[^\s@]+\.[^\s@]+$/\<close>\<close>

definition emailPattern :: "nat rx" where
  "emailPattern = seqs [Bol, plus (Cls notSpaceAt), lit CHR ''@'', plus (Cls notSpaceAt),
     lit CHR ''.'', plus (Cls notSpaceAt), Eol]"

text \<open>\<open>/^(https?:\/\/|www\.)/i\<close>\<close>

definition urlPattern :: "nat rx" where
  "urlPattern = Seq Bol
     (Alt (seqs [lit_i CHR ''h'', lit_i CHR ''t'', lit_i CHR ''t'', lit_i CHR ''p'',
                 opt (lit_i CHR ''s''), lit CHR '':'', lit CHR ''/'', lit CHR ''/''])
          (seqs [lit_i CHR ''w'', lit_i CHR ''w'', lit_i CHR ''w'', lit CHR ''.'']))"

text \<open>\<open>/^[\d\s\-\(\)+]{7,}$/\<close> and \<open>/\d{3,}/\<close>\<close>

definition phonePattern :: "nat rx" where
  "phonePattern = seqs [Bol, Rep 7 None (Cls (\<lambda>c. is_digit c \<or> is_space c \<or> one_of ''-()+'' c)), Eol]"

definition threeDigits :: "nat rx" where
  "threeDigits = Rep 3 None (Cls is_digit)"

text \<open>\<open>/^[$\<euro>\<pounds>\<yen>]?\s*\d+([,\.]\d+)*(\.\d{2})?$/\<close>: the dollar, euro (U+20AC), pound (U+00A3)
  and yen (U+00A5) signs.\<close>

definition currencyPattern :: "nat rx" where
  "currencyPattern = seqs [Bol, opt (Cls (\<lambda>c. c \<in> {36, 8364, 163, 165})), star (Cls is_space),
     plus (Cls is_digit), star (Seq (Cls (one_of '',.'')) (plus (Cls is_digit))),
     opt (Seq (lit CHR ''.'') (times 2 (Cls is_digit))), Eol]"

text \<open>\<open>/^\d{1,2}[\/\-]\d{1,2}[\/\-]\d{2,4}$/\<close> and \<open>/^\d{4}[\/\-]\d{1,2}[\/\-]\d{1,2}$/\<close>\<close>

definition datePattern1 :: "nat rx" where
  "datePattern1 = seqs [Bol, Rep 1 (Some 2) (Cls is_digit), Cls (one_of ''/-''),
     Rep 1 (Some 2) (Cls is_digit), Cls (one_of ''/-''), Rep 2 (Some 4) (Cls is_digit), Eol]"

definition datePattern2 :: "nat rx" where
  "datePattern2 = seqs [Bol, times 4 (Cls is_digit), Cls (one_of ''/-''),
     Rep 1 (Some 2) (Cls is_digit), Cls (one_of ''/-''), Rep 1 (Some 2) (Cls is_digit), Eol]"

text \<open>\<open>/^\d+([,\.]\d+)*$/\<close>\<close>

definition numberPattern :: "nat rx" where
  "numberPattern = seqs [Bol, plus (Cls is_digit),
     star (Seq (Cls (one_of '',.'')) (plus (Cls is_digit))), Eol]"

definition detectContentType :: "jsstring \<Rightarrow> contentType" where
  "detectContentType s =
     (let trimmed = trim s in
      if rx_test emailPattern trimmed then CT_email
      else if rx_test urlPattern trimmed then CT_url
      else if rx_test phonePattern trimmed \<and> rx_test threeDigits trimmed then CT_phone
      else if rx_test currencyPattern trimmed then CT_currency
      else if rx_test datePattern1 trimmed then CT_date
      else if rx_test datePattern2 trimmed then CT_date
      else if rx_test numberPattern trimmed then CT_number
      else CT_text)"

text \<open>What \<open>enrichBlocks\<close> does to each word of the engine's output.\<close>

definition enrichWord :: "Node \<Rightarrow> Word" where
  "enrichWord w =
     (let wordBbox = (bbox w)\<lparr>width := numSub (x1 (bbox w)) (x0 (bbox w)),
            height := numSub (y1 (bbox w)) (y0 (bbox w))\<rparr>
      in \<lparr>content = content w, confidence = confidence w, bbox = wordBbox,
          fontSize = Some (estimateFontSize wordBbox),
          contentType = Some (detectContentType (content w))\<rparr>)"

text \<open>
  A PDF with a text layer is not read by the engine and its tree does not pass through
  \<open>enrichBlocks\<close>: \<open>processPDF\<close> writes each word of a line itself, from the word's text
  and its index in the line (an array index, so the products with 50 are exact).
\<close>

definition pdfTextWord :: "jsstring \<Rightarrow> nat \<Rightarrow> Word" where
  "pdfTextWord wordText wordIdx =
     \<lparr>content = wordText, confidence = 100,
      bbox = \<lparr>x0 = Finite (of_nat (wordIdx * 50)), y0 = Finite 0,
               x1 = Finite (of_nat ((wordIdx + 1) * 50)), y1 = Finite 20,
               width = Finite 50, height = Finite 20\<rparr>,
      fontSize = Some (Finite 12),
      contentType = Some (detectContentType wordText)\<rparr>"

subsection \<open>Notable data: the BTW and IBAN passes of extractNotableData\<close>

datatype entity_type =
    ET_iban | ET_credit_card | ET_bank_account | ET_tax_id | ET_ssn | ET_vat | ET_currency
  | ET_percentage | ET_email | ET_phone | ET_url | ET_ip_address | ET_date | ET_reference_number
  | ET_serial_number | ET_swift_bic | ET_routing_number

record Entity =
  e_type :: entity_type
  e_value :: jsstring
  e_displayValue :: "jsstring option"
  e_confidence :: real
  e_bbox :: BoundingBox
  e_context :: "jsstring option"

record Identifier =
  i_type :: jsstring
  i_value :: jsstring
  i_bbox :: BoundingBox

definition joinLines :: "jsstring list \<Rightarrow> jsstring" where
  "joinLines ss = (case ss of [] \<Rightarrow> [] | s # rest \<Rightarrow> foldl (\<lambda>acc x. acc @ [10] @ x) s rest)"

definition allText :: "Block list \<Rightarrow> jsstring" where
  "allText blocks = joinLines (map content blocks)"

definition allWords :: "Block list \<Rightarrow> Word list" where
  "allWords blocks = concat (map (\<lambda>block. concat (map (\<lambda>para. concat (map words (lines para)))
     (paragraphs block))) blocks)"

definition slice :: "'a list \<Rightarrow> nat \<Rightarrow> nat \<Rightarrow> 'a list" where
  "slice s i e = take (e - i) (drop i s)"

definition zeroBox :: BoundingBox where
  "zeroBox = \<lparr>x0 = Finite 0, y0 = Finite 0, x1 = Finite 0, y1 = Finite 0, width = Finite 0,
     height = Finite 0\<rparr>"

text \<open>\<open>allWords.find(w => w.text.includes(value))\<close>, then
  \<open>matchingWord?.confidence || fallback\<close> and \<open>matchingWord?.bbox || zero box\<close>.\<close>

definition matchingWord :: "Word list \<Rightarrow> jsstring \<Rightarrow> Word option" where
  "matchingWord ws v = find (\<lambda>w. js_includes (content w) v) ws"

definition confidenceOr :: "Word option \<Rightarrow> real \<Rightarrow> real" where
  "confidenceOr w fallback =
     (case w of None \<Rightarrow> fallback | Some x \<Rightarrow> if confidence x = 0 then fallback else confidence x)"

definition bboxOr :: "Word option \<Rightarrow> BoundingBox" where
  "bboxOr w = (case w of None \<Rightarrow> zeroBox | Some x \<Rightarrow> bbox x)"

text \<open>\<open>/\b([A-Z]{2}\d{9}B\d{2})\b/g\<close>\<close>

definition btwPattern :: "nat rx" where
  "btwPattern = seqs [Bnd is_word, times 2 (Cls is_upper), times 9 (Cls is_digit), lit CHR ''B'',
     times 2 (Cls is_digit), Bnd is_word]"

text \<open>\<open>/(?<![A-Z])([A-Z]{2}\d{2}[\sA-Z0-9]{12,32})(?=\s|$)/g\<close>\<close>

definition ibanPattern :: "nat rx" where
  "ibanPattern = seqs [NotBehind is_upper, times 2 (Cls is_upper), times 2 (Cls is_digit),
     Rep 12 (Some 32) (Cls (\<lambda>c. is_space c \<or> is_upper c \<or> is_digit c)),
     Ahead (Alt (Cls is_space) Eol)]"

text \<open>\<open>/B\d{2}$/\<close>\<close>

definition endsBdd :: "nat rx" where
  "endsBdd = seqs [lit CHR ''B'', times 2 (Cls is_digit), Eol]"

text \<open>In both patterns the group 1 is the whole match: what surrounds it has no width.\<close>

definition btwEntity :: "Word list \<Rightarrow> jsstring \<Rightarrow> Entity" where
  "btwEntity ws v =
     \<lparr>e_type = ET_vat, e_value = v, e_displayValue = None,
      e_confidence = confidenceOr (matchingWord ws v) 90, e_bbox = bboxOr (matchingWord ws v),
      e_context = Some (str ''BTW/VAT Number'')\<rparr>"

definition btwIdentifier :: "Word list \<Rightarrow> jsstring \<Rightarrow> Identifier" where
  "btwIdentifier ws v =
     \<lparr>i_type = str ''BTW/VAT Number'', i_value = v, i_bbox = bboxOr (matchingWord ws v)\<rparr>"

definition ibanEntity :: "Word list \<Rightarrow> jsstring \<Rightarrow> Entity" where
  "ibanEntity ws v =
     \<lparr>e_type = ET_iban, e_value = v, e_displayValue = None,
      e_confidence = confidenceOr (matchingWord ws v) 90, e_bbox = bboxOr (matchingWord ws v),
      e_context = None\<rparr>"

definition ibanIdentifier :: "Word list \<Rightarrow> jsstring \<Rightarrow> Identifier" where
  "ibanIdentifier ws v = \<lparr>i_type = str ''IBAN'', i_value = v, i_bbox = bboxOr (matchingWord ws v)\<rparr>"

text \<open>The values that the BTW loop pushes, in order.\<close>

definition btwValues :: "jsstring \<Rightarrow> jsstring list option" where
  "btwValues s = map_option (map (\<lambda>(i, e). slice s i e)) (execAll btwPattern s 0)"

text \<open>The values that the IBAN loop pushes: the match without its white space, when its
  length is between 15 and 34 and it does not end in B and two digits.\<close>

definition ibanAccepts :: "jsstring \<Rightarrow> bool" where
  "ibanAccepts v = (length v \<ge> 15 \<and> length v \<le> 34 \<and> \<not> rx_test endsBdd v)"

definition ibanValues :: "jsstring \<Rightarrow> jsstring list option" where
  "ibanValues s =
     map_option (\<lambda>ms. filter ibanAccepts (map (\<lambda>(i, e). filter (\<lambda>c. \<not> is_space c) (slice s i e)) ms))
       (execAll ibanPattern s 0)"

text \<open>\<open>self.findIndex(p)\<close>: the first index where \<open>p\<close> holds, or -1.\<close>

fun findIndex :: "('a \<Rightarrow> bool) \<Rightarrow> 'a list \<Rightarrow> int" where
  "findIndex p [] = -1"
| "findIndex p (x # xs) = (if p x then 0 else (let k = findIndex p xs in if k < 0 then -1 else k + 1))"

definition uniqueEntities :: "Entity list \<Rightarrow> Entity list" where
  "uniqueEntities es =
     map snd (filter (\<lambda>(index, entity).
        int index = findIndex (\<lambda>e. e_type e = e_type entity \<and> e_value e = e_value entity) es)
       (enumerate 0 es))"

definition uniqueIdentifiers :: "Identifier list \<Rightarrow> Identifier list" where
  "uniqueIdentifiers ids =
     map snd (filter (\<lambda>(index, ident).
        int index = findIndex (\<lambda>i. i_type i = i_type ident \<and> i_value i = i_value ident) ids)
       (enumerate 0 ids))"

text \<open>
  The entities and identifiers of \<open>extractNotableData\<close>. The BTW pass and the IBAN pass
  are its first two; \<open>laterEntities\<close> and \<open>laterIdentifiers\<close> stand for what the passes
  after them push (credit cards, SWIFT codes, VAT and tax numbers, amounts, percentages,
  e-mail addresses, phone numbers, URLs, IP addresses, dates, reference, serial and
  routing numbers), none of which has the type \<open>iban\<close>. \<open>None\<close>: a loop does not return.
\<close>

definition extractNotableData ::
  "Entity list \<Rightarrow> Identifier list \<Rightarrow> Block list \<Rightarrow> (Entity list \<times> Identifier list) option" where
  "extractNotableData laterEntities laterIdentifiers blocks =
     (let s = allText blocks; ws = allWords blocks in
      case btwValues s of
        None \<Rightarrow> None
      | Some btw \<Rightarrow>
          (case ibanValues s of
             None \<Rightarrow> None
           | Some iban \<Rightarrow>
               Some (uniqueEntities (map (btwEntity ws) btw @ map (ibanEntity ws) iban @ laterEntities),
                     uniqueIdentifiers (map (btwIdentifier ws) btw @ map (ibanIdentifier ws) iban
                       @ laterIdentifiers))))"

section \<open>The properties, as the specification words them\<close>

subsection \<open>The invariant of terminal rows\<close>

definition terminal :: "Job \<Rightarrow> bool" where
  "terminal j = (status j = COMPLETED \<or> status j = FAILED)"

definition row_ok :: "Job \<Rightarrow> bool" where
  "row_ok j =
     (if terminal j then
        (status j = COMPLETED) = (ocrResult j \<noteq> None \<and> errorMessage j = None)
        \<and> (status j = FAILED) = (errorMessage j \<noteq> None)
        \<and> processedAt j \<noteq> None
      else True)"

definition table_ok :: "store \<Rightarrow> bool" where
  "table_ok st = list_all row_ok st"

text \<open>The requested status of a PATCH under which the invariant is kept.\<close>

definition patchKeeps :: "patch_body \<Rightarrow> bool" where
  "patchKeeps body =
     (\<not> truthy (body_status body)
      \<or> body_status body = Some (str ''PENDING'')
      \<or> body_status body = Some (str ''PROCESSING'')
      \<or> (body_status body = Some (str ''FAILED'') \<and> truthy (body_errorMessage body)))"

subsection \<open>The normal form of a MIME type\<close>

text \<open>The specification names two mappings, \<open>image/jpg\<close> to \<open>image/jpeg\<close> and \<open>image/tif\<close>
  to \<open>image/tiff\<close>.\<close>

definition normalize_printed :: "jsstring \<Rightarrow> jsstring" where
  "normalize_printed claimed =
     (if claimed = str ''image/jpg'' then str ''image/jpeg''
      else if claimed = str ''image/tif'' then str ''image/tiff''
      else claimed)"

subsection \<open>A webhook that was delivered\<close>

definition delivered :: "fetch_outcome \<Rightarrow> bool" where
  "delivered outcome = (case outcome of Response code \<Rightarrow> response_ok code | FetchThrew t \<Rightarrow> False)"

subsection \<open>A stuck job\<close>

definition stuck :: "int \<Rightarrow> Job \<Rightarrow> bool" where
  "stuck now j = (status j = PROCESSING \<and> now - updatedAt j > 10 * 60 * 1000)"

subsection \<open>The private address ranges\<close>

text \<open>A host inside 10.0.0.0/8, 172.16.0.0/12, 192.168.0.0/16 or 169.254.0.0/16: a dotted
  quad, which the URL parser writes in decimal without leading zeros.\<close>

fun splitOn :: "'a \<Rightarrow> 'a list \<Rightarrow> 'a list list" where
  "splitOn d [] = [[]]"
| "splitOn d (x # xs) =
     (if x = d then [] # splitOn d xs
      else case splitOn d xs of [] \<Rightarrow> [[x]] | p # ps \<Rightarrow> (x # p) # ps)"

fun intercalate :: "'a \<Rightarrow> 'a list list \<Rightarrow> 'a list" where
  "intercalate d [] = []"
| "intercalate d [p] = p"
| "intercalate d (p # q # ps) = p @ d # intercalate d (q # ps)"

definition decimal :: "jsstring \<Rightarrow> nat" where
  "decimal s = foldl (\<lambda>a c. 10 * a + (c - 48)) 0 s"

definition octet :: "jsstring \<Rightarrow> nat option" where
  "octet s = (if decimal s \<le> 255 \<and> showNat (decimal s) = s then Some (decimal s) else None)"

definition ipv4 :: "jsstring \<Rightarrow> (nat \<times> nat \<times> nat \<times> nat) option" where
  "ipv4 host =
     (case map octet (splitOn (ch CHR ''.'') host) of
        [Some a, Some b, Some c, Some d] \<Rightarrow> Some (a, b, c, d)
      | _ \<Rightarrow> None)"

definition inPrivateRange :: "jsstring \<Rightarrow> bool" where
  "inPrivateRange host =
     (case ipv4 host of
        None \<Rightarrow> False
      | Some (a, b, c, d) \<Rightarrow>
          a = 10 \<or> (a = 172 \<and> 16 \<le> b \<and> b \<le> 31) \<or> (a = 192 \<and> b = 168) \<or> (a = 169 \<and> b = 254))"

text \<open>The hosts that the specification lists as rejected; the URL parser writes the
  host \<open>::1\<close> in brackets.\<close>

definition listedHost :: "jsstring \<Rightarrow> bool" where
  "listedHost host =
     (host \<in> set [str ''localhost'', str ''127.0.0.1'', str ''0.0.0.0'', str ''::1'', str ''[::1]'']
      \<or> inPrivateRange host)"

text \<open>The textual test that the validator applies to the lower-cased host.\<close>

definition prefixBlocked :: "jsstring \<Rightarrow> bool" where
  "prefixBlocked host =
     (startsWith host (str ''10.'') \<or> startsWith host (str ''192.168.'')
      \<or> startsWith host (str ''169.254.'')
      \<or> list_ex (\<lambda>n. startsWith host (str ''172.'' @ showNat n @ str ''.'')) [16..<32])"

subsection \<open>The content type with the patterns as the specification prints them\<close>

text \<open>\<open>^(https?://|www\.)\<close>, read as printed: without the \<open>i\<close> flag.\<close>

definition urlPattern_printed :: "nat rx" where
  "urlPattern_printed = Seq Bol
     (Alt (seqs [lit CHR ''h'', lit CHR ''t'', lit CHR ''t'', lit CHR ''p'',
                 opt (lit CHR ''s''), lit CHR '':'', lit CHR ''/'', lit CHR ''/''])
          (seqs [lit CHR ''w'', lit CHR ''w'', lit CHR ''w'', lit CHR ''.'']))"

definition contentType_printed :: "jsstring \<Rightarrow> contentType" where
  "contentType_printed s =
     (let trimmed = trim s in
      if rx_test emailPattern trimmed then CT_email
      else if rx_test urlPattern_printed trimmed then CT_url
      else if rx_test phonePattern trimmed \<and> rx_test threeDigits trimmed then CT_phone
      else if rx_test currencyPattern trimmed then CT_currency
      else if rx_test datePattern1 trimmed \<or> rx_test datePattern2 trimmed then CT_date
      else if rx_test numberPattern trimmed then CT_number
      else CT_text)"

text \<open>A letter of the Basic Latin alphabet in lower case; other code units as they are.\<close>

definition asciiLower :: "nat \<Rightarrow> nat" where
  "asciiLower c = (if is_upper c then c + 32 else c)"

subsection \<open>The BTW shape\<close>

text \<open>\<open>^[A-Z]{2}\d{9}B\d{2}$\<close>\<close>

definition btwShape :: "nat rx" where
  "btwShape = seqs [Bol, times 2 (Cls is_upper), times 9 (Cls is_digit), lit CHR ''B'',
     times 2 (Cls is_digit), Eol]"

section \<open>Example data\<close>

definition job0 :: Job where
  "job0 = \<lparr>jobId = str ''00000000-0000-4000-8000-000000000000'', status = COMPLETED,
     documentType = str ''invoice'', email = str ''t@e.com'', callbackWebhook = None,
     fileData = [], fileName = str ''a.png'', mimeType = str ''image/png'',
     ocrResult = Some (str ''{}''), errorMessage = None, createdAt = 0, updatedAt = 5,
     processedAt = Some 5\<rparr>"

text \<open>A job created at time 0 and claimed nineteen minutes later.\<close>

definition job1 :: Job where
  "job1 = \<lparr>jobId = str ''00000000-0000-4000-8000-000000000001'', status = PROCESSING,
     documentType = str ''invoice'', email = str ''t@e.com'', callbackWebhook = None,
     fileData = [], fileName = str ''a.png'', mimeType = str ''image/png'',
     ocrResult = None, errorMessage = None, createdAt = 0, updatedAt = 19 * 60 * 1000,
     processedAt = None\<rparr>"

text \<open>The status that a PATCH asks for.\<close>

definition requested :: "patch_body \<Rightarrow> JobStatus option" where
  "requested body = (if truthy (body_status body) then map_of validStatuses (the (body_status body)) else None)"

text \<open>A fresh pending job with a webhook, and a world in which its file is a valid PNG,
  the OCR succeeds and the webhook's server answers 500.\<close>

definition jobP :: Job where
  "jobP = \<lparr>jobId = str ''00000000-0000-4000-8000-000000000002'', status = PENDING,
     documentType = str ''invoice'', email = str ''t@e.com'',
     callbackWebhook = Some (str ''https://example.com/hook''),
     fileData = [137, 80, 78, 71], fileName = str ''a.png'', mimeType = str ''image/png'',
     ocrResult = None, errorMessage = None, createdAt = 0, updatedAt = 0,
     processedAt = None\<rparr>"

definition libs0 :: libs where
  "libs0 = \<lparr>fileType_fromBuffer = (\<lambda>b. Detected (str ''image/png'')),
     sharp_metadata = (\<lambda>b. Metadata (Some 400) (Some 200)),
     sharp_resize = (\<lambda>b. None),
     PDFDocument_load = (\<lambda>b. Loaded 1)\<rparr>"

definition world0 :: world where
  "world0 = \<lparr>libraries = libs0, processDocument = (\<lambda>b m. Inr (str ''{}'')),
     fetch = (\<lambda>q. Response 500), APP_DOMAIN = None, claimTime = 1, finishTime = 2,
     webhookTime = 3\<rparr>"

definition jobP_claimed :: Job where
  "jobP_claimed = jobP\<lparr>status := PROCESSING, updatedAt := 1\<rparr>"

definition bodyReset :: patch_body where
  "bodyReset = \<lparr>body_status = Some (str ''PENDING''), body_errorMessage = None\<rparr>"

definition bodyCompleted :: patch_body where
  "bodyCompleted = \<lparr>body_status = Some (str ''COMPLETED''), body_errorMessage = None\<rparr>"

definition bodyFailed :: patch_body where
  "bodyFailed = \<lparr>body_status = Some (str ''FAILED''), body_errorMessage = Some (str ''stuck'')\<rparr>"

text \<open>An administrator marks the job of \<open>jobP\<close> as failed, at time 2.\<close>

definition adminFails :: "store \<Rightarrow> store" where
  "adminFails st = snd (jobPATCH st (jobId jobP) bodyFailed 2)"

text \<open>The first bytes of a PNG; a PDF that holds the token \<open>/JS\<close>, with a library that
  loads it as three pages.\<close>

definition pngBytes :: buffer where
  "pngBytes = [137, 80, 78, 71]"

definition pdfBytes :: buffer where
  "pdfBytes = [37, 80, 68, 70, 47, 74, 83]"

definition libsPdf :: libs where
  "libsPdf = \<lparr>fileType_fromBuffer = (\<lambda>b. Detected (str ''application/pdf'')),
     sharp_metadata = (\<lambda>b. MetadataThrew NonError),
     sharp_resize = (\<lambda>b. None),
     PDFDocument_load = (\<lambda>b. Loaded 3)\<rparr>"

text \<open>
  What \<open>PDFDocument.load\<close> of pdf-lib throws for an encrypted document when
  \<open>ignoreEncryption\<close> is false: an \<open>EncryptedPDFError\<close>, whose message is this one.
\<close>

definition EncryptedPDFError_message :: jsstring where
  "EncryptedPDFError_message = str ''Input document to `PDFDocument.load` is encrypted. You can use `PDFDocument.load(..., { ignoreEncryption: true })` if you wish to load the document anyways.''"

definition libsEncrypted :: libs where
  "libsEncrypted = libsPdf\<lparr>PDFDocument_load := (\<lambda>b. LoadThrew (ErrorObj EncryptedPDFError_message))\<rparr>"

text \<open>Parsers that answer with one host whatever the URL.\<close>

definition parseAs :: "string \<Rightarrow> string \<Rightarrow> jsstring \<Rightarrow> URL option" where
  "parseAs scheme host url = Some \<lparr>protocol = str scheme, hostname = str host\<rparr>"

text \<open>A word as the engine reports it, twenty pixels high, and one whose height is the
  double next to two thirds, \<open>0.6666666666666666\<close>.\<close>

definition word0 :: Node where
  "word0 = \<lparr>content = str ''WWW.EXAMPLE.COM'', confidence = 90,
     bbox = \<lparr>x0 = Finite 0, y0 = Finite 0, x1 = Finite 100, y1 = Finite 20, width = Finite 0,
       height = Finite 0\<rparr>\<rparr>"

definition word1 :: Node where
  "word1 = \<lparr>content = str ''a'', confidence = 90,
     bbox = \<lparr>x0 = Finite 0, y0 = Finite 0, x1 = Finite 1,
       y1 = Finite (6004799503160661 / 9007199254740992), width = Finite 0, height = Finite 0\<rparr>\<rparr>"

text \<open>A block whose text is a BTW number, and one where a letter follows it.\<close>

definition block0 :: Block where
  "block0 = \<lparr>content = str ''NL009292056B01'', confidence = 90, bbox = zeroBox,
     paragraphs = [], blockType = None, readingOrder = None\<rparr>"

definition block1 :: Block where
  "block1 = \<lparr>content = str ''NL009292056B01 X'', confidence = 90, bbox = zeroBox,
     paragraphs = [], blockType = None, readingOrder = None\<rparr>"


section \<open>Facts about strings\<close>

lemma str_eq_iff [simp]: "(str a = str b) = (a = b)"
  by (simp add: str_def inj_of_char inj_map_eq_map)

lemma str_Nil_iff [simp]: "(str a = []) = (a = [])"
  by (simp add: str_def)

section \<open>Facts about matching\<close>

lemma rep_ends_numeral [simp]:
  "rep_ends f (numeral k) lo i =
     concat (map (rep_ends f (pred_numeral k) (lo - 1)) (if lo = 0 then filter (\<lambda>e. i < e) (f i) else f i))
       @ (if lo = 0 then [i] else [])"
  by (simp add: numeral_eq_Suc)

lemmas rx_defs = rx_test_def rx_exec_def lit_def lit_i_def ch_def one_of_def opt_def star_def plus_def
  times_def is_digit_def is_upper_def is_lower_def is_space_def is_word_def lower_def str_def

lemma rx_test_iff: "rx_test r s = (\<exists>i\<le>length s. ends r s i \<noteq> [])"
proof -
  have "(rx_exec r s 0 = None) = (find (\<lambda>i. ends r s i \<noteq> []) [0..<Suc (length s)] = None)"
    by (simp add: rx_exec_def del: upt_Suc split: option.splits)
  then show ?thesis
    by (simp add: rx_test_def find_None_iff less_Suc_eq_le del: upt_Suc)
qed

lemma rx_test_Bol: "rx_test (Seq Bol r) s = (ends r s 0 \<noteq> [])"
  by (auto simp: rx_test_iff)

lemma ends_Seq_Cls:
  "(ends (Seq (Cls p) r) s i \<noteq> []) = (i < length s \<and> p (s ! i) \<and> ends r s (Suc i) \<noteq> [])"
  by simp

lemma ends_Alt: "(ends (Alt a b) s i \<noteq> []) = (ends a s i \<noteq> [] \<or> ends b s i \<noteq> [])"
  by simp

lemma ends_Cls: "(ends (Cls p) s i \<noteq> []) = (i < length s \<and> p (s ! i))"
  by simp

lemma ends_Seq_opt_Cls:
  "(ends (Seq (opt (Cls p)) r) s i \<noteq> [])
     = ((i < length s \<and> p (s ! i) \<and> ends r s (Suc i) \<noteq> []) \<or> ends r s i \<noteq> [])"
  by (auto simp: opt_def)

lemma list8_cases:
  assumes "t = [] \<Longrightarrow> P" "\<And>a. t = [a] \<Longrightarrow> P" "\<And>a b. t = [a, b] \<Longrightarrow> P"
    "\<And>a b c. t = [a, b, c] \<Longrightarrow> P" "\<And>a b c d. t = [a, b, c, d] \<Longrightarrow> P"
    "\<And>a b c d e. t = [a, b, c, d, e] \<Longrightarrow> P" "\<And>a b c d e f. t = [a, b, c, d, e, f] \<Longrightarrow> P"
    "\<And>a b c d e f g. t = [a, b, c, d, e, f, g] \<Longrightarrow> P"
    "\<And>a b c d e f g h r. t = a # b # c # d # e # f # g # h # r \<Longrightarrow> P"
  shows P
  using assms by (metis list.exhaust)

section \<open>Facts about numbers\<close>

text \<open>The search finds the binade.\<close>

lemma binadeFrom_bounds: "e \<le> binadeFrom n e x \<and> binadeFrom n e x \<le> e + int n"
proof (induction n arbitrary: e)
  case 0
  show ?case by simp
next
  case (Suc n)
  from Suc[of "e + 1"] show ?case by auto
qed

lemma binadeFrom_le:
  "\<bar>x\<bar> < 2 powi (k + 1) \<Longrightarrow> e \<le> k \<Longrightarrow> k \<le> e + int n \<Longrightarrow> binadeFrom n e x \<le> k"
proof (induction n arbitrary: e)
  case 0
  then show ?case by simp
next
  case (Suc n)
  show ?case
  proof (cases "\<bar>x\<bar> < 2 powi (e + 1)")
    case True
    with Suc.prems show ?thesis by simp
  next
    case False
    with Suc.prems(1) have "e \<noteq> k" by auto
    with Suc.prems have "e + 1 \<le> k" "k \<le> e + 1 + int n" by simp_all
    from Suc.IH[OF Suc.prems(1) this] False show ?thesis by simp
  qed
qed

lemma binadeFrom_ge:
  "2 powi k \<le> \<bar>x\<bar> \<Longrightarrow> k \<le> e + int n \<Longrightarrow> k \<le> binadeFrom n e x"
proof (induction n arbitrary: e)
  case 0
  then show ?case by simp
next
  case (Suc n)
  show ?case
  proof (cases "\<bar>x\<bar> < 2 powi (e + 1)")
    case True
    with Suc.prems(1) have "(2::real) powi k < 2 powi (e + 1)" by simp
    then have "k < e + 1" by (metis power_int_increasing not_le one_le_numeral order.asym linorder_not_less)
    with True show ?thesis by simp
  next
    case False
    from Suc.prems have "k \<le> e + 1 + int n" by simp
    from Suc.IH[OF Suc.prems(1) this] False show ?thesis by simp
  qed
qed

lemma binade_range: "- 1022 \<le> binade x \<and> binade x \<le> 1023"
  using binadeFrom_bounds[of "- 1022" 2045 x] by (simp add: binade_def)

lemma binade_le: "\<bar>x\<bar> < 2 powi (k + 1) \<Longrightarrow> - 1022 \<le> k \<Longrightarrow> k \<le> 1023 \<Longrightarrow> binade x \<le> k"
  unfolding binade_def by (rule binadeFrom_le) simp_all

lemma binade_ge: "2 powi k \<le> \<bar>x\<bar> \<Longrightarrow> k \<le> 1023 \<Longrightarrow> k \<le> binade x"
  unfolding binade_def by (rule binadeFrom_ge) simp_all

lemma binade_eq:
  "2 powi k \<le> \<bar>x\<bar> \<Longrightarrow> \<bar>x\<bar> < 2 powi (k + 1) \<Longrightarrow> - 1022 \<le> k \<Longrightarrow> k \<le> 1023 \<Longrightarrow> binade x = k"
  using binade_le[of x k] binade_ge[of k x] by simp

lemma binade_small: "\<bar>x\<bar> < 2 powi (- 1021) \<Longrightarrow> binade x = - 1022"
  using binade_le[of x "- 1022"] binade_range[of x] by simp

lemma roundEven_int [simp]: "roundEven (of_int m) = m"
  by (simp add: roundEven_def)


text \<open>A result that is a double is not changed by rounding.\<close>

lemma toDouble_exact:
  assumes x: "x = of_int m * 2 powi e" and m: "\<bar>m\<bar> < 2 ^ 53" and e: "- 1074 \<le> e" "e \<le> 971"
  shows "toDouble x = Finite x"
proof -
  have "\<bar>x\<bar> = of_int \<bar>m\<bar> * 2 powi e" by (simp add: x abs_mult)
  also have "\<dots> < 2 ^ 53 * 2 powi e"
  proof (rule mult_strict_right_mono)
    from m have "of_int \<bar>m\<bar> < (of_int (2 ^ 53) :: real)" by (simp only: of_int_less_iff)
    then show "of_int \<bar>m\<bar> < (2 ^ 53 :: real)" by simp
    show "(0::real) < 2 powi e" by (simp add: zero_less_power_int)
  qed
  also have "\<dots> = 2 powi (e + 53)" by (simp add: power_int_add)
  finally have lt: "\<bar>x\<bar> < 2 powi (e + 53)" .
  have E: "binade x - 52 \<le> e"
  proof (cases "- 1022 \<le> e + 52")
    case True
    from lt have "\<bar>x\<bar> < 2 powi (e + 52 + 1)" by (simp add: algebra_simps)
    then have "binade x \<le> e + 52" by (rule binade_le) (use True e in simp_all)
    then show ?thesis by simp
  next
    case False
    then have "e + 53 \<le> - 1021" by simp
    then have "(2::real) powi (e + 53) \<le> 2 powi (- 1021)" by (rule power_int_increasing) simp
    with lt have "\<bar>x\<bar> < 2 powi (- 1021)" by simp
    from binade_small[OF this] e show ?thesis by simp
  qed
  define B where "B = binade x"
  define d where "d = nat (e - (B - 52))"
  have de: "e = (B - 52) + int d" using E by (simp add: d_def B_def)
  have "2 powi e = 2 powi (B - 52) * (2::real) powi int d"
    by (subst de) (simp add: power_int_add)
  then have xx: "x = of_int m * (2 powi (B - 52) * 2 powi int d)" using x by simp
  have nz: "(2::real) powi (B - 52) \<noteq> 0" by simp
  have q: "x / 2 powi (B - 52) = of_int (m * 2 ^ d)"
    by (subst xx) (simp add: nz)
  have r: "roundEven (x / 2 powi (B - 52)) = m * 2 ^ d" unfolding q by (rule roundEven_int)
  have bk: "of_int (m * 2 ^ d) * 2 powi (B - 52) = x"
    by (subst xx) simp
  have no: "\<not> (B = 1023 \<and> 2 ^ 53 \<le> \<bar>m * 2 ^ d\<bar>)"
  proof
    assume a: "B = 1023 \<and> 2 ^ 53 \<le> \<bar>m * 2 ^ d\<bar>"
    with E e have "d = 0" by (simp add: d_def B_def)
    with a m show False by simp
  qed
  show ?thesis unfolding toDouble_def Let_def B_def[symmetric] r using no bk by simp
qed

lemma toDouble_int: "\<bar>m\<bar> < 2 ^ 53 \<Longrightarrow> toDouble (of_int m) = Finite (of_int m)"
  using toDouble_exact[of "of_int m" m 0] by simp

lemma toDouble_quarters:
  assumes "\<bar>m\<bar> < 2 ^ 51"
  shows "toDouble (of_int m * 0.75) = Finite (of_int m * 0.75)"
proof (rule toDouble_exact[of _ "3 * m" "- 2"])
  show "real_of_int m * 0.75 = real_of_int (3 * m) * 2 powi - 2" by simp
  show "\<bar>3 * m\<bar> < 2 ^ 53" using assms by simp
qed simp_all

text \<open>The product of the double next to two thirds with 0.75 lies half way between two
  doubles, and is rounded up to one half.\<close>

lemma tie_binade: "binade (18014398509481983 / 36028797018963968) = - 2"
  by (rule binade_eq) simp_all

lemma tie_product: "toDouble (6004799503160661 / 9007199254740992 * 0.75) = Finite (1 / 2)"
proof -
  have e: "(6004799503160661 / 9007199254740992 * 0.75 :: real) = 18014398509481983 / 36028797018963968"
    by simp
  show ?thesis unfolding e toDouble_def Let_def tie_binade
    by (simp add: roundEven_def)
qed

lemma third_is_double: "toDouble (6004799503160661 / 9007199254740992) = Finite (6004799503160661 / 9007199254740992)"
  using toDouble_exact[of "6004799503160661 / 9007199254740992" 6004799503160661 "- 53"] by simp

section \<open>Word enrichment\<close>

lemma lit_i_letter:
  "97 \<le> k \<Longrightarrow> k \<le> 122 \<Longrightarrow> (lower x = lower k \<and> x < 128) = (asciiLower x = k)"
  by (auto simp: lower_def asciiLower_def is_upper_def)

lemma asciiLower_other:
  "k < 97 \<or> 122 < k \<Longrightarrow> (asciiLower x = k) = (x = k \<and> \<not> is_upper k)"
  by (auto simp: asciiLower_def is_upper_def)

text \<open>The URL pattern asks for one of three prefixes, in either case.\<close>

lemma url_prefix:
  "rx_test urlPattern t =
     (startsWith (map asciiLower t) (str ''http://'') \<or> startsWith (map asciiLower t) (str ''https://'')
      \<or> startsWith (map asciiLower t) (str ''www.''))"
  unfolding urlPattern_def rx_test_Bol seqs.simps ends_Alt ends_Seq_Cls ends_Seq_opt_Cls ends_Cls
    lit_def lit_i_def
  by (cases t rule: list8_cases)
     (simp_all add: lit_i_letter asciiLower_other ch_def str_def startsWith_def is_upper_def, blast+)

text \<open>The word \<open>WWW.EXAMPLE.COM\<close> under each pattern.\<close>

lemma www_trim: "trim (str ''WWW.EXAMPLE.COM'') = str ''WWW.EXAMPLE.COM''"
  by (simp add: trim_def rx_defs)

lemma www_email: "\<not> rx_test emailPattern (str ''WWW.EXAMPLE.COM'')"
  by (simp add: emailPattern_def notSpaceAt_def rx_defs)

lemma www_url: "rx_test urlPattern (str ''WWW.EXAMPLE.COM'')"
  by (simp add: urlPattern_def rx_defs)

lemma www_url_printed: "\<not> rx_test urlPattern_printed (str ''WWW.EXAMPLE.COM'')"
  by (simp add: urlPattern_printed_def rx_defs)

lemma www_phone: "\<not> rx_test phonePattern (str ''WWW.EXAMPLE.COM'')"
  by (simp add: phonePattern_def rx_defs)

lemma www_currency: "\<not> rx_test currencyPattern (str ''WWW.EXAMPLE.COM'')"
  by (simp add: currencyPattern_def rx_defs)

lemma www_date1: "\<not> rx_test datePattern1 (str ''WWW.EXAMPLE.COM'')"
  by (simp add: datePattern1_def rx_defs)

lemma www_date2: "\<not> rx_test datePattern2 (str ''WWW.EXAMPLE.COM'')"
  by (simp add: datePattern2_def rx_defs)

lemma www_number: "\<not> rx_test numberPattern (str ''WWW.EXAMPLE.COM'')"
  by (simp add: numberPattern_def rx_defs)

lemmas www = www_trim www_email www_url www_url_printed www_phone www_currency www_date1 www_date2
  www_number

text \<open>On whole coordinates below \<open>2^50\<close> the height and the font size are exact.\<close>

lemma fontSize_whole:
  assumes "y0 (bbox w) = Finite (of_int a)" "y1 (bbox w) = Finite (of_int b)"
    and "\<bar>a\<bar> < 2 ^ 50" "\<bar>b\<bar> < 2 ^ 50"
  shows "height (bbox (enrichWord w)) = Finite (of_int (b - a))
     \<and> fontSize (enrichWord w) = Some (Finite (of_int \<lfloor>of_int (b - a) * 0.75 + 1 / 2 :: real\<rfloor>))"
proof -
  from assms(3,4) have d: "\<bar>b - a\<bar> < 2 ^ 51" by simp
  then have d': "\<bar>b - a\<bar> < 2 ^ 53" by simp
  have h: "numSub (y1 (bbox w)) (y0 (bbox w)) = Finite (of_int (b - a))"
    using toDouble_int[OF d'] by (simp add: numSub_def assms(1,2))
  have "numMul (Finite (of_int (b - a))) (Finite 0.75) = Finite (of_int (b - a) * 0.75)"
    using toDouble_quarters[OF d] by (simp add: numMul_def)
  with h show ?thesis
    by (simp add: enrichWord_def estimateFontSize_def Let_def Math_round_def)
qed

text \<open>
  C8 (as amended). For a word that \<open>enrichBlocks\<close> processes, enrichment sets the box
  height to \<open>y1 - y0\<close> and the font size to \<open>Math.round(height * 0.75)\<close>, both in double
  arithmetic; on whole coordinates below \<open>2^50\<close> this is the nearest integer to three
  quarters of \<open>y1 - y0\<close>, a half going up. The content type is that of the trimmed text,
  decided by the first pattern that matches in the order email, URL, phone (with three
  digits in a row), currency, date (either form), number, and text otherwise; the URL
  pattern is matched without regard to case, so that it asks for the prefix \<open>http://\<close>,
  \<open>https://\<close> or \<open>www.\<close> in any mix of upper and lower case. A word of a PDF with a text
  layer is not enriched: it has the height 20, the font size 12, and the content type of
  its text.
\<close>

theorem word_enrichment:
  "bbox (enrichWord w)
     = (bbox w)\<lparr>width := numSub (x1 (bbox w)) (x0 (bbox w)),
                height := numSub (y1 (bbox w)) (y0 (bbox w))\<rparr>
   \<and> fontSize (enrichWord w)
       = Some (Math_round (numMul (height (bbox (enrichWord w))) (Finite 0.75)))
   \<and> (\<forall>a b. y0 (bbox w) = Finite (of_int a) \<and> y1 (bbox w) = Finite (of_int b)
          \<and> \<bar>a\<bar> < 2 ^ 50 \<and> \<bar>b\<bar> < 2 ^ 50 \<longrightarrow>
        height (bbox (enrichWord w)) = Finite (of_int (b - a))
        \<and> fontSize (enrichWord w)
            = Some (Finite (of_int \<lfloor>of_int (b - a) * 0.75 + 1 / 2 :: real\<rfloor>)))
   \<and> contentType (enrichWord w) = Some (detectContentType (content w))
   \<and> detectContentType s =
       (if rx_test emailPattern (trim s) then CT_email
        else if rx_test urlPattern (trim s) then CT_url
        else if rx_test phonePattern (trim s) \<and> rx_test threeDigits (trim s) then CT_phone
        else if rx_test currencyPattern (trim s) then CT_currency
        else if rx_test datePattern1 (trim s) \<or> rx_test datePattern2 (trim s) then CT_date
        else if rx_test numberPattern (trim s) then CT_number
        else CT_text)
   \<and> rx_test urlPattern t =
       (startsWith (map asciiLower t) (str ''http://'')
        \<or> startsWith (map asciiLower t) (str ''https://'')
        \<or> startsWith (map asciiLower t) (str ''www.''))
   \<and> height (bbox (pdfTextWord s k)) = Finite 20
   \<and> fontSize (pdfTextWord s k) = Some (Finite 12)
   \<and> contentType (pdfTextWord s k) = Some (detectContentType s)"
proof -
  have d: "detectContentType s =
       (if rx_test emailPattern (trim s) then CT_email
        else if rx_test urlPattern (trim s) then CT_url
        else if rx_test phonePattern (trim s) \<and> rx_test threeDigits (trim s) then CT_phone
        else if rx_test currencyPattern (trim s) then CT_currency
        else if rx_test datePattern1 (trim s) \<or> rx_test datePattern2 (trim s) then CT_date
        else if rx_test numberPattern (trim s) then CT_number
        else CT_text)"
    unfolding detectContentType_def Let_def by simp
  have e: "bbox (enrichWord w)
       = (bbox w)\<lparr>width := numSub (x1 (bbox w)) (x0 (bbox w)),
                  height := numSub (y1 (bbox w)) (y0 (bbox w))\<rparr>
     \<and> fontSize (enrichWord w)
         = Some (Math_round (numMul (height (bbox (enrichWord w))) (Finite 0.75)))
     \<and> contentType (enrichWord w) = Some (detectContentType (content w))"
    by (simp add: enrichWord_def estimateFontSize_def Let_def)
  have p: "height (bbox (pdfTextWord s k)) = Finite 20
     \<and> fontSize (pdfTextWord s k) = Some (Finite 12)
     \<and> contentType (pdfTextWord s k) = Some (detectContentType s)"
    by (simp add: pdfTextWord_def)
  from d e p url_prefix[of t] fontSize_whole[of w] show ?thesis by blast
qed

theorem word_enrichment_witness:
  "y0 (bbox word0) = Finite (of_int 0) \<and> y1 (bbox word0) = Finite (of_int 20)
   \<and> height (bbox (enrichWord word0)) = Finite 20
   \<and> fontSize (enrichWord word0) = Some (Finite 15)
   \<and> contentType (enrichWord word0) = Some CT_url
   \<and> detectContentType (str ''WWW.EXAMPLE.COM'') = CT_url
   \<and> rx_test urlPattern (str ''WWW.EXAMPLE.COM'')"
proof -
  note t = word_enrichment[of word0 "str ''WWW.EXAMPLE.COM''" "str ''WWW.EXAMPLE.COM''"]
  have y: "y0 (bbox word0) = Finite (of_int 0) \<and> y1 (bbox word0) = Finite (of_int 20)"
    by (simp add: word0_def)
  from t[THEN conjunct2, THEN conjunct2, THEN conjunct2, THEN conjunct2, THEN conjunct1]
  have a: "detectContentType (str ''WWW.EXAMPLE.COM'') = CT_url" by (simp add: www)
  from t[THEN conjunct2, THEN conjunct2, THEN conjunct1, rule_format, of 0 20] y
  have b: "height (bbox (enrichWord word0)) = Finite 20
     \<and> fontSize (enrichWord word0) = Some (Finite 15)" by simp
  from t[THEN conjunct2, THEN conjunct2, THEN conjunct2, THEN conjunct1] a
  have d: "contentType (enrichWord word0) = Some CT_url" by (simp add: word0_def)
  from y a b d www_url show ?thesis by simp
qed

text \<open>The product is rounded before \<open>Math.round\<close> sees it: for the height
  \<open>0.6666666666666666\<close> the font size is 1, where the nearest integer to three quarters of
  the height is 0.\<close>

lemma fontSize_tie:
  "height (bbox (enrichWord word1)) = Finite (6004799503160661 / 9007199254740992)
   \<and> fontSize (enrichWord word1) = Some (Finite 1)
   \<and> \<lfloor>6004799503160661 / 9007199254740992 * 0.75 + 1 / 2 :: real\<rfloor> = 0"
proof -
  have h: "numSub (y1 (bbox word1)) (y0 (bbox word1)) = Finite (6004799503160661 / 9007199254740992)"
    using third_is_double by (simp add: numSub_def word1_def)
  have "numMul (Finite (6004799503160661 / 9007199254740992)) (Finite 0.75) = Finite (1 / 2)"
    using tie_product by (simp add: numMul_def)
  with h show ?thesis
    by (simp add: enrichWord_def estimateFontSize_def Let_def Math_round_def)
qed

text \<open>A word of a PDF with a text layer has the font size 12, where the formula gives 15
  for its height.\<close>

lemma pdf_word_fontSize:
  "fontSize (pdfTextWord s k) = Some (Finite 12)
   \<and> estimateFontSize (bbox (pdfTextWord s k)) = Finite 15"
proof -
  have "numMul (Finite 20) (Finite 0.75) = Finite 15"
    using toDouble_int[of 15] by (simp add: numMul_def)
  then show ?thesis by (simp add: pdfTextWord_def estimateFontSize_def Math_round_def)
qed

text \<open>The claim as it stands fails twice. With the URL pattern read as the specification
  prints it, in lower case only, the word \<open>WWW.EXAMPLE.COM\<close> would be text; the code makes
  it a URL. And a word of a PDF with a text layer has the font size 12, where the formula
  gives 15 for its height.\<close>

theorem enrichment_counterexample:
  "\<not> (\<forall>s. detectContentType s = contentType_printed s)
   \<and> \<not> (\<forall>s k. fontSize (pdfTextWord s k) = Some (estimateFontSize (bbox (pdfTextWord s k))))"
proof
  show "\<not> (\<forall>s. detectContentType s = contentType_printed s)"
  proof
    assume a: "\<forall>s. detectContentType s = contentType_printed s"
    have "detectContentType (str ''WWW.EXAMPLE.COM'') = CT_url"
      unfolding detectContentType_def Let_def by (simp add: www)
    moreover have "contentType_printed (str ''WWW.EXAMPLE.COM'') = CT_text"
      unfolding contentType_printed_def Let_def by (simp add: www)
    ultimately show False using a by simp
  qed
  show "\<not> (\<forall>s k. fontSize (pdfTextWord s k) = Some (estimateFontSize (bbox (pdfTextWord s k))))"
  proof
    assume "\<forall>s k. fontSize (pdfTextWord s k) = Some (estimateFontSize (bbox (pdfTextWord s k)))"
    then have "fontSize (pdfTextWord [] 0) = Some (estimateFontSize (bbox (pdfTextWord [] 0)))"
      by blast
    moreover from pdf_word_fontSize[of "[]" 0]
    have "fontSize (pdfTextWord [] 0) = Some (Finite 12)"
      and "estimateFontSize (bbox (pdfTextWord [] 0)) = Finite 15" by simp_all
    ultimately have "Some (Finite 12) = Some (Finite (15::real))" by (simp only:)
    then show False by simp
  qed
qed

section \<open>The webhook URL\<close>

lemma upt_16_32: "[16..<32] = [16, 17, 18, 19, 20, 21, 22, 23, 24, 25, 26, 27, 28, 29, 30, 31::nat]"
  by (simp add: upt_rec)

lemma showNat_2digits:
  "showNat 16 = [49, 54]" "showNat 17 = [49, 55]" "showNat 18 = [49, 56]" "showNat 19 = [49, 57]"
  "showNat 20 = [50, 48]" "showNat 21 = [50, 49]" "showNat 22 = [50, 50]" "showNat 23 = [50, 51]"
  "showNat 24 = [50, 52]" "showNat 25 = [50, 53]" "showNat 26 = [50, 54]" "showNat 27 = [50, 55]"
  "showNat 28 = [50, 56]" "showNat 29 = [50, 57]" "showNat 30 = [51, 48]" "showNat 31 = [51, 49]"
  by (simp_all add: showNat.simps)

lemma two_digits:
  "((e = 49 \<and> 54 \<le> f \<and> f \<le> 57) \<or> (e = 50 \<and> 48 \<le> f \<and> f \<le> 57) \<or> (e = 51 \<and> 48 \<le> f \<and> f \<le> 49))
   = ([e, f] \<in> set (map showNat [16..<32]))"
  unfolding upt_16_32 by (simp add: showNat_2digits) arith

lemma ends_Seq_Alt:
  "(ends (Seq (Alt a b) r) s i \<noteq> []) = (ends (Seq a r) s i \<noteq> [] \<or> ends (Seq b r) s i \<noteq> [])"
  by auto

lemma ends_Seq_Seq:
  "(ends (Seq (Seq a b) r) s i \<noteq> []) = (ends (Seq a (Seq b r)) s i \<noteq> [])"
  by auto

lemma private172_prefix:
  "rx_test private172 h = list_ex (\<lambda>n. startsWith h (str ''172.'' @ showNat n @ str ''.'')) [16..<32]"
proof -
  have r: "list_ex (\<lambda>n. startsWith h (str ''172.'' @ showNat n @ str ''.'')) [16..<32]
      = (\<exists>e f. [e, f] \<in> set (map showNat [16..<32]) \<and> startsWith h ([49, 55, 50, 46, e, f, 46]))"
    unfolding upt_16_32 by (simp add: showNat_2digits str_def list_ex_iff) blast
  have l: "rx_test private172 h
      = (\<exists>e f. ((e = 49 \<and> 54 \<le> f \<and> f \<le> 57) \<or> (e = 50 \<and> 48 \<le> f \<and> f \<le> 57) \<or> (e = 51 \<and> 48 \<le> f \<and> f \<le> 49))
           \<and> startsWith h ([49, 55, 50, 46, e, f, 46]))"
    unfolding private172_def rx_test_Bol seqs.simps ends_Seq_Alt ends_Seq_Seq ends_Alt ends_Seq_Cls ends_Cls lit_def
    by (cases h rule: list8_cases)
       (simp_all add: ch_def startsWith_def is_digit_def, blast+)
  show ?thesis unfolding r l two_digits ..
qed


lemma splitOn_nonempty: "splitOn d s \<noteq> []"
  by (induction s) (auto split: list.splits)

lemma intercalate_Cons: "ps \<noteq> [] \<Longrightarrow> intercalate d ((x # p) # ps) = x # intercalate d (p # ps)"
  by (cases ps) auto

lemma intercalate_splitOn: "intercalate d (splitOn d s) = s"
proof (induction s)
  case Nil
  show ?case by simp
next
  case (Cons x xs)
  show ?case
  proof (cases "splitOn d xs")
    case Nil
    with splitOn_nonempty[of d xs] show ?thesis by simp
  next
    case (Cons p ps)
    with Cons.IH show ?thesis by (cases ps) auto
  qed
qed

lemma octet_Some: "octet p = Some a \<Longrightarrow> p = showNat a"
  by (auto simp: octet_def split: if_splits)

lemma ipv4_Some:
  assumes "ipv4 h = Some (a, b, c, d)"
  shows "h = showNat a @ 46 # showNat b @ 46 # showNat c @ 46 # showNat d"
proof -
  from assms obtain p1 p2 p3 p4 where s: "splitOn 46 h = [p1, p2, p3, p4]"
    and o: "octet p1 = Some a" "octet p2 = Some b" "octet p3 = Some c" "octet p4 = Some d"
    by (auto simp: ipv4_def ch_def split: list.splits option.splits)
  from intercalate_splitOn[of 46 h] s have "h = p1 @ 46 # p2 @ 46 # p3 @ 46 # p4" by simp
  with o[THEN octet_Some] show ?thesis by simp
qed

lemma showNat_digits: "c \<in> set (showNat n) \<Longrightarrow> is_digit c"
proof (induction n arbitrary: c rule: showNat.induct)
  case (1 n)
  show ?case
  proof (cases "n < 10")
    case True
    with "1.prems" show ?thesis by (simp add: showNat.simps[of n] is_digit_def)
  next
    case False
    with "1.prems" have "c \<in> set (showNat (n div 10)) \<or> c = 48 + n mod 10"
      by (auto simp: showNat.simps[of n])
    then show ?thesis
    proof
      assume "c \<in> set (showNat (n div 10))"
      with "1.IH"[OF False] show ?thesis .
    next
      assume "c = 48 + n mod 10"
      then show ?thesis by (simp add: is_digit_def)
    qed
  qed
qed

lemma lower_digit: "is_digit c \<or> c = 46 \<Longrightarrow> lower c = c"
  by (auto simp: lower_def is_digit_def is_upper_def)

lemma toLowerCase_ipv4:
  assumes "ipv4 h = Some (a, b, c, d)"
  shows "toLowerCase h = h"
proof -
  have "\<forall>x\<in>set h. lower x = x"
    unfolding ipv4_Some[OF assms] using showNat_digits lower_digit by auto
  then show ?thesis by (simp add: toLowerCase_def map_idI)
qed

lemma startsWith_append: "startsWith (p @ r) p"
  by (simp add: startsWith_def)

lemma showNat_octets:
  "showNat 10 = [49, 48]" "showNat 172 = [49, 55, 50]" "showNat 192 = [49, 57, 50]"
  "showNat 168 = [49, 54, 56]" "showNat 169 = [49, 54, 57]" "showNat 254 = [50, 53, 52]"
  by (simp_all add: showNat.simps)

lemma private_prefixBlocked:
  assumes "inPrivateRange h"
  shows "prefixBlocked h"
proof -
  from assms obtain a b c d where i: "ipv4 h = Some (a, b, c, d)"
    and r: "a = 10 \<or> (a = 172 \<and> 16 \<le> b \<and> b \<le> 31) \<or> (a = 192 \<and> b = 168) \<or> (a = 169 \<and> b = 254)"
    by (auto simp: inPrivateRange_def split: option.splits)
  note h = ipv4_Some[OF i]
  from r consider "a = 10" | "a = 172" "16 \<le> b" "b \<le> 31" | "a = 192" "b = 168" | "a = 169" "b = 254"
    by blast
  then show ?thesis
  proof cases
    case 1
    then show ?thesis unfolding h by (simp add: prefixBlocked_def showNat_octets startsWith_def str_def)
  next
    case 2
    have "startsWith h (str ''172.'' @ showNat b @ str ''.'')"
      using startsWith_append[of "str ''172.'' @ showNat b @ str ''.''" "showNat c @ 46 # showNat d"]
      unfolding h by (simp add: 2 showNat_octets str_def)
    moreover have "b \<in> {16..<32}" using 2 by auto
    then have "b \<in> set [16..<32]" by (simp only: set_upt)
    ultimately show ?thesis unfolding prefixBlocked_def list_ex_iff by blast
  next
    case 3
    then show ?thesis unfolding h by (simp add: prefixBlocked_def showNat_octets startsWith_def str_def)
  next
    case 4
    then show ?thesis unfolding h by (simp add: prefixBlocked_def showNat_octets startsWith_def str_def)
  qed
qed

lemma validator_char:
  "webhookUrlValidator parseURL url =
     (case parseURL url of
        None \<Rightarrow> False
      | Some p \<Rightarrow> toLowerCase (hostname p) \<notin> set blockedHostnames
          \<and> \<not> prefixBlocked (toLowerCase (hostname p)))"
  by (auto simp: webhookUrlValidator_def webhookRefine_def Let_def prefixBlocked_def private172_prefix
      split: option.splits)

lemma literal_lower:
  "h \<in> set [str ''localhost'', str ''127.0.0.1'', str ''0.0.0.0'', str ''::1'', str ''[::1]'']
   \<Longrightarrow> toLowerCase h \<in> set blockedHostnames"
  by (auto simp: blockedHostnames_def toLowerCase_def lower_def is_upper_def str_def)

lemma listed_rejected:
  assumes "parseURL url = Some p" "listedHost (hostname p)"
  shows "\<not> webhookUrlValidator parseURL url"
proof -
  from assms(2) consider
    "hostname p \<in> set [str ''localhost'', str ''127.0.0.1'', str ''0.0.0.0'', str ''::1'', str ''[::1]'']"
    | "inPrivateRange (hostname p)" unfolding listedHost_def by blast
  then show ?thesis
  proof cases
    case 1
    from literal_lower[OF 1] show ?thesis by (simp add: validator_char assms(1))
  next
    case 2
    then obtain a b c d where "ipv4 (hostname p) = Some (a, b, c, d)"
      by (auto simp: inPrivateRange_def split: option.splits)
    from toLowerCase_ipv4[OF this] private_prefixBlocked[OF 2]
    show ?thesis by (simp add: validator_char assms(1))
  qed
qed

lemma loopback2_accepted:
  assumes "parseURL url = Some p" "hostname p = str ''127.0.0.2''"
  shows "webhookUrlValidator parseURL url"
proof -
  have l: "toLowerCase (str ''127.0.0.2'') = str ''127.0.0.2''"
    by (simp add: toLowerCase_def lower_def is_upper_def str_def)
  have "\<not> prefixBlocked (str ''127.0.0.2'')"
    unfolding prefixBlocked_def upt_16_32
    by (simp add: showNat_2digits startsWith_def str_def)
  moreover have "str ''127.0.0.2'' \<notin> set blockedHostnames" by (simp add: blockedHostnames_def)
  ultimately show ?thesis by (simp add: validator_char assms l)
qed

text \<open>
  C5 (as amended). The validator accepts a URL exactly when it parses and its host, in
  lower case, is neither one of \<open>localhost\<close>, \<open>127.0.0.1\<close>, \<open>0.0.0.0\<close>, \<open>::1\<close>, \<open>[::1]\<close>
  nor begins with the text \<open>10.\<close>, \<open>192.168.\<close>, \<open>169.254.\<close> or \<open>172.n.\<close> for n from 16
  to 31; the scheme plays no part and nothing is resolved. This rejects every host the
  specification lists, the dotted quads inside 10.0.0.0/8, 172.16.0.0/12, 192.168.0.0/16
  and 169.254.0.0/16 included, and it accepts the host \<open>127.0.0.2\<close>.
\<close>

theorem webhook_validator:
  "webhookUrlValidator parseURL url =
     (case parseURL url of
        None \<Rightarrow> False
      | Some parsed \<Rightarrow> toLowerCase (hostname parsed) \<notin> set blockedHostnames
          \<and> \<not> prefixBlocked (toLowerCase (hostname parsed)))
   \<and> (parseURL url = Some p \<and> listedHost (hostname p) \<longrightarrow> \<not> webhookUrlValidator parseURL url)
   \<and> (parseURL url = Some p \<and> hostname p = str ''127.0.0.2'' \<longrightarrow> webhookUrlValidator parseURL url)"
  using validator_char[of parseURL url] listed_rejected[of parseURL url p]
    loopback2_accepted[of parseURL url p]
  by blast

theorem webhook_validator_witness:
  "listedHost (str ''192.168.1.1'')
   \<and> \<not> webhookUrlValidator (parseAs ''http:'' ''192.168.1.1'') (str ''http://192.168.1.1/admin'')
   \<and> webhookUrlValidator (parseAs ''http:'' ''127.0.0.2'') (str ''http://127.0.0.2/hook'')
   \<and> webhookUrlValidator (parseAs ''https:'' ''127.0.0.2'') (str ''https://127.0.0.2/hook'')"
proof -
  have s: "splitOn 46 (str ''192.168.1.1'') = [str ''192'', str ''168'', str ''1'', str ''1'']"
    by (simp add: str_def)
  have o: "octet (str ''192'') = Some 192" "octet (str ''168'') = Some 168" "octet (str ''1'') = Some 1"
    by (simp_all add: octet_def decimal_def showNat.simps str_def)
  have l: "listedHost (str ''192.168.1.1'')"
    by (simp add: listedHost_def inPrivateRange_def ipv4_def ch_def s o)
  have a: "parseAs ''http:'' ''192.168.1.1'' (str ''http://192.168.1.1/admin'')
      = Some \<lparr>protocol = str ''http:'', hostname = str ''192.168.1.1''\<rparr>"
    by (simp add: parseAs_def)
  have b: "parseAs ''http:'' ''127.0.0.2'' (str ''http://127.0.0.2/hook'')
      = Some \<lparr>protocol = str ''http:'', hostname = str ''127.0.0.2''\<rparr>"
    by (simp add: parseAs_def)
  have c: "parseAs ''https:'' ''127.0.0.2'' (str ''https://127.0.0.2/hook'')
      = Some \<lparr>protocol = str ''https:'', hostname = str ''127.0.0.2''\<rparr>"
    by (simp add: parseAs_def)
  note t1 = webhook_validator[of "parseAs ''http:'' ''192.168.1.1''" "str ''http://192.168.1.1/admin''"
      "\<lparr>protocol = str ''http:'', hostname = str ''192.168.1.1''\<rparr>"]
  from t1[THEN conjunct2, THEN conjunct1] a l
  have r1: "\<not> webhookUrlValidator (parseAs ''http:'' ''192.168.1.1'') (str ''http://192.168.1.1/admin'')"
    by simp
  note t2 = webhook_validator[of "parseAs ''http:'' ''127.0.0.2''" "str ''http://127.0.0.2/hook''"
      "\<lparr>protocol = str ''http:'', hostname = str ''127.0.0.2''\<rparr>"]
  from t2[THEN conjunct2, THEN conjunct2] b
  have r2: "webhookUrlValidator (parseAs ''http:'' ''127.0.0.2'') (str ''http://127.0.0.2/hook'')"
    by simp
  note t3 = webhook_validator[of "parseAs ''https:'' ''127.0.0.2''" "str ''https://127.0.0.2/hook''"
      "\<lparr>protocol = str ''https:'', hostname = str ''127.0.0.2''\<rparr>"]
  from t3[THEN conjunct2, THEN conjunct2] c
  have r3: "webhookUrlValidator (parseAs ''https:'' ''127.0.0.2'') (str ''https://127.0.0.2/hook'')"
    by simp
  from l r1 r2 r3 show ?thesis by blast
qed

text \<open>The host \<open>10.example.com\<close> is not inside 10.0.0.0/8, and it is rejected: the test
  is on the text of the host name.\<close>

theorem host_prefix_counterexample:
  "\<not> (\<forall>parseURL url p. parseURL url = Some p \<longrightarrow>
        (\<not> webhookUrlValidator parseURL url) = listedHost (hostname p))"
proof
  assume a: "\<forall>parseURL url p. parseURL url = Some p \<longrightarrow>
        (\<not> webhookUrlValidator parseURL url) = listedHost (hostname p)"
  define u where "u = str ''http://10.example.com/hook''"
  have "toLowerCase (str ''10.example.com'') = str ''10.example.com''"
    by (simp add: toLowerCase_def lower_def is_upper_def str_def)
  then have r: "\<not> webhookUrlValidator (parseAs ''http:'' ''10.example.com'') u"
    by (simp add: webhookUrlValidator_def webhookRefine_def parseAs_def startsWith_def str_def)
  have "splitOn 46 (str ''10.example.com'') = [str ''10'', str ''example'', str ''com'']"
    by (simp add: str_def)
  then have "ipv4 (str ''10.example.com'') = None"
    by (simp add: ipv4_def ch_def split: option.splits list.splits)
  then have n: "\<not> listedHost (str ''10.example.com'')"
    by (simp add: listedHost_def inPrivateRange_def)
  have "parseAs ''http:'' ''10.example.com'' u
      = Some \<lparr>protocol = str ''http:'', hostname = str ''10.example.com''\<rparr>"
    by (simp add: parseAs_def)
  with a have "(\<not> webhookUrlValidator (parseAs ''http:'' ''10.example.com'') u)
      = listedHost (hostname \<lparr>protocol = str ''http:'', hostname = str ''10.example.com''\<rparr>)"
    by blast
  with r n show False by simp
qed

section \<open>File validation\<close>

lemma normalize_eval:
  "normalizeMimeType (str ''image/png'') = str ''image/png''"
  "normalizeMimeType (str ''image/jpeg'') = str ''image/jpeg''"
  "normalizeMimeType (str ''image/tiff'') = str ''image/tiff''"
  "normalizeMimeType (str ''image/bmp'') = str ''image/bmp''"
  "normalizeMimeType (str ''image/webp'') = str ''image/webp''"
  "normalizeMimeType (str ''application/pdf'') = str ''application/pdf''"
  "normalizeMimeType (str ''image/jpg'') = str ''image/jpeg''"
  "normalizeMimeType (str ''image/tif'') = str ''image/tiff''"
  "normalizeMimeType (str ''IMAGE/PNG'') = str ''image/png''"
  "normalizeMimeType (str '' image/png '') = str ''image/png''"
  by (simp_all add: normalizeMimeType_def trim_def toLowerCase_def lower_def is_upper_def
      is_space_def str_def)

lemma normalize_allowed: "m \<in> set ALLOWED_TYPES \<Longrightarrow> normalizeMimeType m = m"
  by (auto simp: ALLOWED_TYPES_def normalize_eval)

lemma allowed_kind:
  "m \<in> set ALLOWED_TYPES \<Longrightarrow> m \<noteq> str ''application/pdf'' \<Longrightarrow> startsWith m (str ''image/'')"
  by (auto simp: ALLOWED_TYPES_def startsWith_def str_def)

lemma allowed_pdf: "\<not> startsWith (str ''application/pdf'') (str ''image/'')"
  by (simp add: startsWith_def str_def)

text \<open>The fifth step, for a file that passed the first four.\<close>

lemma validateFile_detected:
  assumes "length buf \<le> MAX_FILE_SIZE" "fileType_fromBuffer L buf = Detected m"
    "m \<in> set ALLOWED_TYPES" "normalizeMimeType c = m"
  shows "validateFile L buf c
     = (if m = str ''application/pdf'' then validatePDF L buf else (validateImage L buf m, []))"
  using assms allowed_kind[of m] allowed_pdf
  by (auto simp: validateFile_def normalize_allowed)

text \<open>
  C3 (as amended). \<open>validateFile\<close> applies its checks in a fixed order and the first
  failure decides: a buffer over 50 MiB fails with the file-size error; otherwise a
  detection that throws fails with a validation error that carries the message, and an
  undetectable type fails with the unable-to-detect error; otherwise a detected type
  outside the allowed six fails with the unsupported-type error; otherwise a claimed type
  whose normal form differs from the detected type fails with the type-mismatch error;
  otherwise the result is that of the PDF checks for \<open>application/pdf\<close> and that of the
  image checks for the other five. The normal form of the claimed type is taken after
  putting it in lower case and trimming it: only then \<open>image/jpg\<close> becomes \<open>image/jpeg\<close>
  and \<open>image/tif\<close> becomes \<open>image/tiff\<close>.
\<close>

theorem validateFile_order:
  "(length buf > MAX_FILE_SIZE \<longrightarrow>
      validateFile L buf c = (invalid (str ''File size '' @ showNat (length buf)
        @ str '' bytes exceeds maximum '' @ showNat MAX_FILE_SIZE @ str '' bytes''), []))
   \<and> (length buf \<le> MAX_FILE_SIZE \<and> fileType_fromBuffer L buf = DetectThrew t \<longrightarrow>
      validateFile L buf c
        = (invalid (str ''Validation error: '' @ messageOf t (str ''Unknown error'')), []))
   \<and> (length buf \<le> MAX_FILE_SIZE \<and> fileType_fromBuffer L buf = Undetected \<longrightarrow>
      validateFile L buf c
        = (invalid (str ''Unable to detect file type - file may be corrupted or invalid''), []))
   \<and> (length buf \<le> MAX_FILE_SIZE \<and> fileType_fromBuffer L buf = Detected m
        \<and> m \<notin> set ALLOWED_TYPES \<longrightarrow>
      validateFile L buf c = (invalid (str ''File type '' @ m @ str '' is not supported''), []))
   \<and> (length buf \<le> MAX_FILE_SIZE \<and> fileType_fromBuffer L buf = Detected m
        \<and> m \<in> set ALLOWED_TYPES \<and> normalizeMimeType c \<noteq> m \<longrightarrow>
      validateFile L buf c = (invalid (str ''File type mismatch: claimed '' @ c
        @ str '' but detected '' @ m), []))
   \<and> (length buf \<le> MAX_FILE_SIZE \<and> fileType_fromBuffer L buf = Detected m
        \<and> m \<in> set ALLOWED_TYPES \<and> normalizeMimeType c = m \<longrightarrow>
      validateFile L buf c
        = (if m = str ''application/pdf'' then validatePDF L buf else (validateImage L buf m, [])))
   \<and> normalizeMimeType c = normalize_printed (trim (toLowerCase c))"
proof -
  have n: "normalizeMimeType c = normalize_printed (trim (toLowerCase c))"
    by (simp add: normalizeMimeType_def normalize_printed_def Let_def)
  show ?thesis
    using validateFile_detected[of buf L m c]
    by (auto simp: validateFile_def normalize_allowed n)
qed

theorem validateFile_order_witness:
  "length (replicate 52428801 (0::8 word)) > MAX_FILE_SIZE
   \<and> \<not> isValid (fst (validateFile libs0 (replicate 52428801 0) (str ''image/png'')))
   \<and> length pngBytes \<le> MAX_FILE_SIZE
   \<and> validateFile (libs0\<lparr>fileType_fromBuffer := (\<lambda>b. DetectThrew NonError)\<rparr>) pngBytes (str ''image/png'')
       = (invalid (str ''Validation error: Unknown error''), [])
   \<and> validateFile (libs0\<lparr>fileType_fromBuffer := (\<lambda>b. Undetected)\<rparr>) pngBytes (str ''image/png'')
       = (invalid (str ''Unable to detect file type - file may be corrupted or invalid''), [])
   \<and> str ''image/gif'' \<notin> set ALLOWED_TYPES
   \<and> validateFile (libs0\<lparr>fileType_fromBuffer := (\<lambda>b. Detected (str ''image/gif''))\<rparr>) pngBytes
        (str ''image/gif'')
       = (invalid (str ''File type image/gif is not supported''), [])
   \<and> fileType_fromBuffer libs0 pngBytes = Detected (str ''image/png'')
   \<and> str ''image/png'' \<in> set ALLOWED_TYPES
   \<and> normalizeMimeType (str ''application/pdf'') \<noteq> str ''image/png''
   \<and> validateFile libs0 pngBytes (str ''application/pdf'')
       = (invalid (str ''File type mismatch: claimed application/pdf but detected image/png''), [])
   \<and> normalizeMimeType (str ''IMAGE/PNG'') = str ''image/png''
   \<and> validateFile libs0 pngBytes (str ''IMAGE/PNG'') = (validateImage libs0 pngBytes (str ''image/png''), [])"
proof -
  have a1: "length (replicate 52428801 (0::8 word)) > MAX_FILE_SIZE" by (simp add: MAX_FILE_SIZE_def)
  have a2: "length pngBytes \<le> MAX_FILE_SIZE" by (simp add: MAX_FILE_SIZE_def pngBytes_def)
  have a3: "fileType_fromBuffer libs0 pngBytes = Detected (str ''image/png'')" by (simp add: libs0_def)
  have a4: "str ''image/png'' \<in> set ALLOWED_TYPES" by (simp add: ALLOWED_TYPES_def)
  have a5: "normalizeMimeType (str ''application/pdf'') \<noteq> str ''image/png''" by (simp add: normalize_eval)
  have a6: "normalizeMimeType (str ''IMAGE/PNG'') = str ''image/png''" by (simp add: normalize_eval)
  have a7: "str ''image/gif'' \<notin> set ALLOWED_TYPES" by (simp add: ALLOWED_TYPES_def)
  from validateFile_order[of "replicate 52428801 0" libs0 "str ''image/png''"] a1
  have b1: "\<not> isValid (fst (validateFile libs0 (replicate 52428801 0) (str ''image/png'')))"
    by (simp add: invalid_def)
  from validateFile_order[of pngBytes "libs0\<lparr>fileType_fromBuffer := (\<lambda>b. DetectThrew NonError)\<rparr>"
      "str ''image/png''" NonError] a2
  have b2: "validateFile (libs0\<lparr>fileType_fromBuffer := (\<lambda>b. DetectThrew NonError)\<rparr>) pngBytes
      (str ''image/png'') = (invalid (str ''Validation error: Unknown error''), [])"
    by (simp add: messageOf_def str_def)
  from validateFile_order[of pngBytes "libs0\<lparr>fileType_fromBuffer := (\<lambda>b. Undetected)\<rparr>"
      "str ''image/png''"] a2
  have b3: "validateFile (libs0\<lparr>fileType_fromBuffer := (\<lambda>b. Undetected)\<rparr>) pngBytes
      (str ''image/png'')
      = (invalid (str ''Unable to detect file type - file may be corrupted or invalid''), [])"
    by simp
  from validateFile_order[of pngBytes "libs0\<lparr>fileType_fromBuffer := (\<lambda>b. Detected (str ''image/gif''))\<rparr>"
      "str ''image/gif''" _ "str ''image/gif''"] a2 a7
  have b4: "validateFile (libs0\<lparr>fileType_fromBuffer := (\<lambda>b. Detected (str ''image/gif''))\<rparr>) pngBytes
      (str ''image/gif'') = (invalid (str ''File type image/gif is not supported''), [])"
    by (simp add: str_def)
  have e: "str ''File type mismatch: claimed '' @ str ''application/pdf'' @ str '' but detected ''
      @ str ''image/png'' = str ''File type mismatch: claimed application/pdf but detected image/png''"
    by (simp add: str_def)
  from validateFile_order[of pngBytes libs0 "str ''application/pdf''" _ "str ''image/png''"] a2 a3 a4 a5
  have b5: "validateFile libs0 pngBytes (str ''application/pdf'')
       = (invalid (str ''File type mismatch: claimed application/pdf but detected image/png''), [])"
    by (simp add: e)
  from validateFile_order[of pngBytes libs0 "str ''IMAGE/PNG''" _ "str ''image/png''"] a2 a3 a4 a6
  have b6: "validateFile libs0 pngBytes (str ''IMAGE/PNG'') = (validateImage libs0 pngBytes (str ''image/png''), [])"
    by simp
  from a1 a2 a3 a4 a5 a6 a7 b1 b2 b3 b4 b5 b6 show ?thesis by blast
qed

text \<open>With the normal form as the specification prints it, the two mappings alone, the
  claimed type \<open>IMAGE/PNG\<close> for a PNG would be a mismatch; the code goes on to the image
  checks, which this image passes.\<close>

theorem claimed_case_counterexample:
  "\<not> (\<forall>L buf c m. length buf \<le> MAX_FILE_SIZE \<and> fileType_fromBuffer L buf = Detected m
        \<and> m \<in> set ALLOWED_TYPES \<and> normalize_printed c \<noteq> m \<longrightarrow>
      validateFile L buf c = (invalid (str ''File type mismatch: claimed '' @ c
        @ str '' but detected '' @ m), []))"
proof
  assume a: "\<forall>L buf c m. length buf \<le> MAX_FILE_SIZE \<and> fileType_fromBuffer L buf = Detected m
        \<and> m \<in> set ALLOWED_TYPES \<and> normalize_printed c \<noteq> m \<longrightarrow>
      validateFile L buf c = (invalid (str ''File type mismatch: claimed '' @ c
        @ str '' but detected '' @ m), [])"
  have a2: "length pngBytes \<le> MAX_FILE_SIZE" by (simp add: MAX_FILE_SIZE_def pngBytes_def)
  have a3: "fileType_fromBuffer libs0 pngBytes = Detected (str ''image/png'')" by (simp add: libs0_def)
  have a4: "str ''image/png'' \<in> set ALLOWED_TYPES" by (simp add: ALLOWED_TYPES_def)
  have a5: "normalize_printed (str ''IMAGE/PNG'') \<noteq> str ''image/png''"
    by (simp add: normalize_printed_def)
  from a a2 a3 a4 a5 have "validateFile libs0 pngBytes (str ''IMAGE/PNG'')
      = (invalid (str ''File type mismatch: claimed '' @ str ''IMAGE/PNG''
        @ str '' but detected '' @ str ''image/png''), [])" by blast
  moreover have "validateFile libs0 pngBytes (str ''IMAGE/PNG'')
      = (valid (str ''image/png'') pngBytes, [])"
    using validateFile_detected[OF a2 a3 a4 normalize_eval(9)]
    by (simp add: validateImage_def libs0_def falsy_def MAX_IMAGE_DIMENSION_def MAX_IMAGE_PIXELS_def
        str_def)
  ultimately show False by (simp add: invalid_def valid_def)
qed

section \<open>PDF validation\<close>

lemma validatePDF_valid:
  "isValid (fst (validatePDF L buf)) = (\<exists>n. PDFDocument_load L buf = Loaded n \<and> 1 \<le> n \<and> n \<le> 500)"
  by (auto simp: validatePDF_def invalid_def valid_def MAX_PDF_PAGES_def Let_def
      split: pdf_outcome.splits)

lemma validatePDF_result:
  "PDFDocument_load L buf = Loaded n \<Longrightarrow> 1 \<le> n \<Longrightarrow> n \<le> 500 \<Longrightarrow>
     validatePDF L buf = (valid (str ''application/pdf'') buf,
        if checkPDFForJavaScript buf then [jsWarning n] else [])"
  by (auto simp: validatePDF_def MAX_PDF_PAGES_def)

lemma validatePDF_encrypted:
  "PDFDocument_load L buf = LoadThrew (ErrorObj m) \<Longrightarrow> js_includes m (str ''encryption'') \<Longrightarrow>
     validatePDF L buf = (invalid (str ''Encrypted PDFs are not supported''), [])"
  by (simp add: validatePDF_def messageOf_def)

lemma validatePDF_other:
  "PDFDocument_load L buf = LoadThrew (ErrorObj m) \<Longrightarrow> \<not> js_includes m (str ''encryption'') \<Longrightarrow>
     validatePDF L buf = (invalid (str ''PDF validation failed: '' @ m), [])"
  by (simp add: validatePDF_def messageOf_def)

text \<open>\<open>includes\<close> asks for the text somewhere in the string, and the scan for one of the
  four tokens somewhere in the first MiB of the buffer.\<close>

lemma startsWith_iff: "startsWith s p = (\<exists>post. s = p @ post)"
proof
  assume "startsWith s p"
  then have "s = p @ drop (length p) s" by (metis startsWith_def append_take_drop_id)
  then show "\<exists>post. s = p @ post" by blast
next
  assume "\<exists>post. s = p @ post"
  then show "startsWith s p" by (auto simp: startsWith_def)
qed

lemma js_includes_iff: "js_includes s p = (\<exists>pre post. s = pre @ p @ post)"
proof (induction s)
  case Nil
  show ?case by auto
next
  case (Cons x xs)
  show ?case
  proof
    assume "js_includes (x # xs) p"
    then consider "startsWith (x # xs) p" | "js_includes xs p" by auto
    then show "\<exists>pre post. x # xs = pre @ p @ post"
    proof cases
      case 1
      then obtain post where "x # xs = [] @ p @ post" by (auto simp: startsWith_iff)
      then show ?thesis by blast
    next
      case 2
      with Cons.IH obtain pre post where "xs = pre @ p @ post" by blast
      then have "x # xs = (x # pre) @ p @ post" by simp
      then show ?thesis by blast
    qed
  next
    assume "\<exists>pre post. x # xs = pre @ p @ post"
    then obtain pre post where e: "x # xs = pre @ p @ post" by blast
    show "js_includes (x # xs) p"
    proof (cases pre)
      case Nil
      with e have "startsWith (x # xs) p" by (auto simp: startsWith_iff)
      then show ?thesis by simp
    next
      case (Cons a pre')
      with e have "xs = pre' @ p @ post" by simp
      with Cons.IH have "js_includes xs p" by blast
      then show ?thesis by simp
    qed
  qed
qed

lemma checkPDFForJavaScript_iff:
  "checkPDFForJavaScript buf
     = (\<exists>token\<in>{str ''/JavaScript'', str ''/JS'', str ''/OpenAction'', str ''/AA''}.
          \<exists>pre post. map unat (take (1024 * 1024) buf) = pre @ token @ post)"
proof -
  have "take (min (length buf) (1024 * 1024)) buf = take (1024 * 1024) buf" by (simp add: min_def)
  then show ?thesis
    by (simp add: checkPDFForJavaScript_def jsIndicators_def js_includes_iff Let_def del: take_all_iff)
qed

text \<open>
  For a buffer within the size limit that is detected and claimed as \<open>application/pdf\<close>:
  validation passes exactly when the document loads (the loader refusing encryption)
  with between 1 and 500 pages; it then returns the buffer as it is, and one of the tokens
  \<open>/JavaScript\<close>, \<open>/JS\<close>, \<open>/OpenAction\<close>, \<open>/AA\<close> in the first MiB adds a warning to the log
  and nothing else. When the loader throws, validation fails: with the encrypted-PDF
  error when the message contains the text \<open>encryption\<close>, and with the loader's message
  otherwise.
\<close>

lemma pdf_validation:
  assumes "length buf \<le> MAX_FILE_SIZE"
    and "fileType_fromBuffer L buf = Detected (str ''application/pdf'')"
    and "normalizeMimeType c = str ''application/pdf''"
  shows "isValid (fst (validateFile L buf c))
       = (\<exists>n. PDFDocument_load L buf = Loaded n \<and> 1 \<le> n \<and> n \<le> 500)
     \<and> (\<forall>n. PDFDocument_load L buf = Loaded n \<and> 1 \<le> n \<and> n \<le> 500 \<longrightarrow>
           validateFile L buf c = (valid (str ''application/pdf'') buf,
              if (\<exists>token\<in>{str ''/JavaScript'', str ''/JS'', str ''/OpenAction'', str ''/AA''}.
                    \<exists>pre post. map unat (take (1024 * 1024) buf) = pre @ token @ post)
              then [jsWarning n] else []))
     \<and> (\<forall>m. PDFDocument_load L buf = LoadThrew (ErrorObj m) \<and> js_includes m (str ''encryption'') \<longrightarrow>
           validateFile L buf c = (invalid (str ''Encrypted PDFs are not supported''), []))
     \<and> (\<forall>m. PDFDocument_load L buf = LoadThrew (ErrorObj m) \<and> \<not> js_includes m (str ''encryption'') \<longrightarrow>
           validateFile L buf c = (invalid (str ''PDF validation failed: '' @ m), []))
     \<and> (\<forall>t. PDFDocument_load L buf = LoadThrew t \<longrightarrow> \<not> isValid (fst (validateFile L buf c)))"
proof -
  have "str ''application/pdf'' \<in> set ALLOWED_TYPES" by (simp add: ALLOWED_TYPES_def)
  from validateFile_detected[OF assms(1,2) this assms(3)]
  have v: "validateFile L buf c = validatePDF L buf" by simp
  show ?thesis unfolding v checkPDFForJavaScript_iff[symmetric]
    using validatePDF_valid[of L buf] validatePDF_result[of L buf] validatePDF_encrypted[of L buf]
      validatePDF_other[of L buf]
    by auto
qed

text \<open>A PDF of three pages that holds the token \<open>/JS\<close> passes, with the warning.\<close>

lemma pdf_with_script:
  "validateFile libsPdf pdfBytes (str ''application/pdf'')
     = (valid (str ''application/pdf'') pdfBytes, [jsWarning 3])"
proof -
  have a1: "length pdfBytes \<le> MAX_FILE_SIZE" by (simp add: MAX_FILE_SIZE_def pdfBytes_def)
  have a2: "fileType_fromBuffer libsPdf pdfBytes = Detected (str ''application/pdf'')"
    by (simp add: libsPdf_def)
  have a3: "normalizeMimeType (str ''application/pdf'') = str ''application/pdf''"
    by (simp add: normalize_eval)
  have a4: "PDFDocument_load libsPdf pdfBytes = Loaded 3" by (simp add: libsPdf_def)
  have a5: "checkPDFForJavaScript pdfBytes"
    by (simp add: checkPDFForJavaScript_def pdfBytes_def jsIndicators_def startsWith_def str_def)
  from pdf_validation[OF a1 a2 a3] a4 a5 show ?thesis
    by (simp add: checkPDFForJavaScript_iff)
qed

text \<open>The message of pdf-lib for an encrypted document speaks of a document that is
  encrypted and of the option \<open>ignoreEncryption\<close>: the text \<open>encryption\<close> is not in it.\<close>

lemma message_without_encryption: "\<not> js_includes EncryptedPDFError_message (str ''encryption'')"
  by (simp add: EncryptedPDFError_message_def str_def startsWith_def)

text \<open>
  C4. An encrypted PDF is rejected, but not with the encrypted-PDF error: the loader
  throws, the message that it throws does not contain the text that the code looks
  for, and the error is the general one with the loader's message.
\<close>

theorem encrypted_pdf_error:
  "PDFDocument_load libsEncrypted pdfBytes = LoadThrew (ErrorObj EncryptedPDFError_message)
   \<and> validateFile libsEncrypted pdfBytes (str ''application/pdf'')
       = (invalid (str ''PDF validation failed: '' @ EncryptedPDFError_message), [])
   \<and> validateFile libsEncrypted pdfBytes (str ''application/pdf'')
       \<noteq> (invalid (str ''Encrypted PDFs are not supported''), [])"
proof -
  have a1: "length pdfBytes \<le> MAX_FILE_SIZE" by (simp add: MAX_FILE_SIZE_def pdfBytes_def)
  have a2: "fileType_fromBuffer libsEncrypted pdfBytes = Detected (str ''application/pdf'')"
    by (simp add: libsEncrypted_def libsPdf_def)
  have a3: "normalizeMimeType (str ''application/pdf'') = str ''application/pdf''"
    by (simp add: normalize_eval)
  have a4: "PDFDocument_load libsEncrypted pdfBytes = LoadThrew (ErrorObj EncryptedPDFError_message)"
    by (simp add: libsEncrypted_def)
  from pdf_validation[OF a1 a2 a3] a4 message_without_encryption
  have v: "validateFile libsEncrypted pdfBytes (str ''application/pdf'')
       = (invalid (str ''PDF validation failed: '' @ EncryptedPDFError_message), [])" by blast
  have "str ''PDF validation failed: '' @ EncryptedPDFError_message
      \<noteq> str ''Encrypted PDFs are not supported''"
    by (simp add: str_def)
  with a4 v show ?thesis by (simp add: invalid_def)
qed

section \<open>The table under update\<close>

lemma findUnique_mem: "findUnique st i = Some j \<Longrightarrow> j \<in> set st \<and> jobId j = i"
  by (auto simp: findUnique_def find_Some_iff)

lemma findUnique_None: "(findUnique st i = None) = (\<forall>k\<in>set st. jobId k \<noteq> i)"
  by (auto simp: findUnique_def find_None_iff)

lemma findUnique_map:
  assumes "\<And>k. jobId (g k) = jobId k"
  shows "findUnique (map (\<lambda>k. if jobId k = i then g k else k) st) i = map_option g (findUnique st i)"
  using assms by (induction st) (auto simp: findUnique_def)

lemma update_cases:
  "update st i d now = Some (j', st') \<Longrightarrow>
     \<exists>j. findUnique st i = Some j \<and> j' = (d j)\<lparr>updatedAt := now\<rparr>
       \<and> st' = map (\<lambda>k. if jobId k = i then (d k)\<lparr>updatedAt := now\<rparr> else k) st"
  by (auto simp: update_def split: option.splits)

lemma update_None: "(update st i d now = None) = (findUnique st i = None)"
  by (auto simp: update_def split: option.splits)

lemma update_find:
  assumes "update st i d now = Some (j', st')" "\<And>k. jobId (d k) = jobId k"
  shows "findUnique st' i = Some j'"
proof -
  from update_cases[OF assms(1)] obtain j where j: "findUnique st i = Some j"
    "j' = (d j)\<lparr>updatedAt := now\<rparr>"
    "st' = map (\<lambda>k. if jobId k = i then (d k)\<lparr>updatedAt := now\<rparr> else k) st" by blast
  have "findUnique (map (\<lambda>k. if jobId k = i then (d k)\<lparr>updatedAt := now\<rparr> else k) st) i
      = map_option (\<lambda>k. (d k)\<lparr>updatedAt := now\<rparr>) (findUnique st i)"
    by (rule findUnique_map) (simp add: assms(2))
  then show ?thesis by (simp add: j)
qed

text \<open>An update writes every row that has the id, and no other.\<close>

lemma update_table_ok:
  assumes "update st i d now = Some (j', st')" "table_ok st"
  shows "table_ok st' = (\<forall>k\<in>set st. jobId k = i \<longrightarrow> row_ok ((d k)\<lparr>updatedAt := now\<rparr>))"
proof -
  from update_cases[OF assms(1)] have
    st': "st' = map (\<lambda>k. if jobId k = i then (d k)\<lparr>updatedAt := now\<rparr> else k) st" by blast
  from assms(2) have "\<forall>k\<in>set st. row_ok k" by (simp add: table_ok_def list_all_iff)
  then show ?thesis unfolding st' table_ok_def list_all_iff set_map by auto
qed

lemma foldl_min_mem: "foldl (\<lambda>best k. if f k < f best then k else best) j js \<in> set (j # js)"
  by (induction js arbitrary: j) auto

lemma findFirstPending_mem:
  "findFirstPending st = Some pj \<Longrightarrow> pj \<in> set st \<and> status pj = PENDING"
proof -
  assume a: "findFirstPending st = Some pj"
  show ?thesis
  proof (cases "filter (\<lambda>j. status j = PENDING) st")
    case Nil
    with a show ?thesis by (simp add: findFirstPending_def)
  next
    case (Cons j js)
    with a have "pj \<in> set (j # js)"
      using foldl_min_mem[of createdAt j js] by (simp add: findFirstPending_def)
    then have "pj \<in> set (filter (\<lambda>j. status j = PENDING) st)" using Cons by simp
    then show ?thesis by simp
  qed
qed

lemma claim_update:
  "claim st now = Some (job, st') \<Longrightarrow>
     \<exists>pj::Job. update st (jobId pj) (\<lambda>j. j\<lparr>status := PROCESSING\<rparr>) now = Some (job, st')"
  by (cases "findFirstPending st") (auto simp: claim_def)

text \<open>The update of the claim, whichever row it writes.\<close>

lemma claiming_table_ok:
  assumes "update st i (\<lambda>j. j\<lparr>status := PROCESSING\<rparr>) now = Some (job, st')" "table_ok st"
  shows "table_ok st'"
  unfolding update_table_ok[OF assms] by (simp add: row_ok_def terminal_def)

lemma claim_table_ok:
  assumes "claim st now = Some (job, st')" "table_ok st"
  shows "table_ok st'"
proof -
  from claim_update[OF assms(1)] obtain pj :: Job where
    u: "update st (jobId pj) (\<lambda>j. j\<lparr>status := PROCESSING\<rparr>) now = Some (job, st')" by blast
  from claiming_table_ok[OF u assms(2)] show ?thesis .
qed

lemma finalizeFailed_table_ok:
  assumes "finalizeFailed st i m now = Some (row, st')" "table_ok st"
  shows "table_ok st'"
  unfolding update_table_ok[OF assms(1)[unfolded finalizeFailed_def] assms(2)]
  by (simp add: row_ok_def terminal_def)

text \<open>The write to COMPLETED leaves \<open>errorMessage\<close> as it finds it.\<close>

lemma finalizeCompleted_table_ok:
  assumes "finalizeCompleted st i res now = Some (row, st')" "table_ok st"
  shows "table_ok st' = (\<forall>k\<in>set st. jobId k = i \<longrightarrow> errorMessage k = None)"
  unfolding update_table_ok[OF assms(1)[unfolded finalizeCompleted_def] assms(2)]
  by (simp add: row_ok_def terminal_def)

lemma tryJob_Inr:
  assumes "tryJob W st job = Inr r"
  shows "\<exists>res row. finalizeCompleted st (jobId job) res (finishTime W) = Some (row, table r)
     \<and> returned r"
  using assms
  by (auto simp: tryJob_def Let_def split: prod.splits if_splits sum.splits option.splits) blast+

lemma valid_PENDING [simp]: "map_of validStatuses (str ''PENDING'') = Some PENDING"
  and valid_PROCESSING [simp]: "map_of validStatuses (str ''PROCESSING'') = Some PROCESSING"
  and valid_COMPLETED [simp]: "map_of validStatuses (str ''COMPLETED'') = Some COMPLETED"
  and valid_FAILED [simp]: "map_of validStatuses (str ''FAILED'') = Some FAILED"
  by (simp_all add: validStatuses_def)

lemma jobPATCH_cases:
  "snd (jobPATCH st i body now) = st
   \<or> (\<exists>j' st'. update st i (updateData (requested body) (body_errorMessage body) now) now = Some (j', st')
         \<and> snd (jobPATCH st i body now) = st')"
  by (auto simp: jobPATCH_def requested_def Let_def split: option.splits)

lemma updateData_id [simp]: "jobId (updateData s m now k) = jobId k"
  by (simp add: updateData_def Let_def split: option.splits)

lemma patchKeeps_requested:
  "patchKeeps body \<Longrightarrow> requested body = None \<or> requested body = Some PENDING
     \<or> requested body = Some PROCESSING \<or> (requested body = Some FAILED \<and> truthy (body_errorMessage body))"
  by (auto simp: patchKeeps_def requested_def truthy_def)

lemma updateData_row_ok:
  assumes "row_ok j" "s = None \<or> s = Some PENDING \<or> s = Some PROCESSING \<or> (s = Some FAILED \<and> truthy m)"
  shows "row_ok ((updateData s m now j)\<lparr>updatedAt := now'\<rparr>)"
  using assms
  by (auto simp: updateData_def Let_def row_ok_def terminal_def truthy_def split: option.splits if_splits)

lemma jobPATCH_table_ok:
  assumes "table_ok st" "patchKeeps body"
  shows "table_ok (snd (jobPATCH st i body now))"
proof -
  from jobPATCH_cases[of st i body now] show ?thesis
  proof
    assume "snd (jobPATCH st i body now) = st"
    with assms show ?thesis by simp
  next
    assume "\<exists>j' st'. update st i (updateData (requested body) (body_errorMessage body) now) now = Some (j', st')
         \<and> snd (jobPATCH st i body now) = st'"
    then obtain j' st' where u: "update st i (updateData (requested body) (body_errorMessage body) now) now = Some (j', st')"
      and s: "snd (jobPATCH st i body now) = st'" by blast
    have "row_ok ((updateData (requested body) (body_errorMessage body) now k)\<lparr>updatedAt := now\<rparr>)"
      if "k \<in> set st" for k
    proof (rule updateData_row_ok)
      from that assms(1) show "row_ok k" by (simp add: table_ok_def list_all_iff)
      show "requested body = None \<or> requested body = Some PENDING \<or> requested body = Some PROCESSING
        \<or> (requested body = Some FAILED \<and> truthy (body_errorMessage body))"
        by (rule patchKeeps_requested[OF assms(2)])
    qed
    then show ?thesis unfolding s update_table_ok[OF u assms(1)] by blast
  qed
qed

text \<open>
  C1 (as amended). Take a table whose terminal rows satisfy the invariant (COMPLETED
  exactly when \<open>ocrResult\<close> is set and \<open>errorMessage\<close> is null, FAILED exactly when
  \<open>errorMessage\<close> is set, \<open>processedAt\<close> set). The worker's claim keeps the invariant (its
  update does, whichever row it writes), and so does its final write to FAILED. Its final write to COMPLETED sets the status, the
  result and \<open>processedAt\<close> and leaves \<open>errorMessage\<close> as it is: it keeps the invariant
  exactly when the row has no error message at that moment. The admin PATCH keeps the
  invariant when the status it asks for is absent, PENDING, PROCESSING, or FAILED with a
  non-empty \<open>errorMessage\<close>.
\<close>

theorem invariant_preserved:
  assumes "table_ok st"
  shows "(\<forall>job st'. claim st now = Some (job, st') \<longrightarrow> table_ok st')
     \<and> (\<forall>job st'. update st i (\<lambda>j. j\<lparr>status := PROCESSING\<rparr>) now = Some (job, st') \<longrightarrow> table_ok st')
     \<and> (\<forall>row st'. finalizeFailed st i m now = Some (row, st') \<longrightarrow> table_ok st')
     \<and> (\<forall>row st'. finalizeCompleted st i res now = Some (row, st') \<longrightarrow>
           table_ok st' = (\<forall>k\<in>set st. jobId k = i \<longrightarrow> errorMessage k = None))
     \<and> (patchKeeps body \<longrightarrow> table_ok (snd (jobPATCH st i body now)))"
  using claim_table_ok[OF _ assms] claiming_table_ok[OF _ assms] finalizeFailed_table_ok[OF _ assms]
    finalizeCompleted_table_ok[OF _ assms] jobPATCH_table_ok[OF assms]
  by blast

theorem invariant_preserved_witness:
  "table_ok [jobP]
   \<and> claim [jobP] 1 = Some (jobP_claimed, [jobP_claimed])
   \<and> update [jobP] (jobId jobP) (\<lambda>j. j\<lparr>status := PROCESSING\<rparr>) 1 = Some (jobP_claimed, [jobP_claimed])
   \<and> table_ok [jobP_claimed]
   \<and> (\<exists>row st'. finalizeFailed [jobP_claimed] (jobId jobP) (str ''Unknown error'') 2 = Some (row, st')
         \<and> table_ok st')
   \<and> (\<exists>row st'. finalizeCompleted [jobP_claimed] (jobId jobP) (str ''{}'') 2 = Some (row, st')
         \<and> table_ok st')
   \<and> patchKeeps bodyReset
   \<and> table_ok (snd (jobPATCH [jobP] (jobId jobP) bodyReset 7))"
proof -
  have h: "table_ok [jobP]" by (simp add: table_ok_def row_ok_def terminal_def jobP_def)
  have c: "claim [jobP] 1 = Some (jobP_claimed, [jobP_claimed])"
    by (simp add: claim_def findFirstPending_def update_def findUnique_def jobP_def jobP_claimed_def)
  have u: "update [jobP] (jobId jobP) (\<lambda>j. j\<lparr>status := PROCESSING\<rparr>) 1 = Some (jobP_claimed, [jobP_claimed])"
    by (simp add: update_def findUnique_def jobP_def jobP_claimed_def)
  from invariant_preserved[OF h, where now = 1] c have h': "table_ok [jobP_claimed]" by blast
  from invariant_preserved[OF h, where now = 1 and i = "jobId jobP"] u
  have hu: "table_ok [jobP_claimed]" by blast
  have f: "findUnique [jobP_claimed] (jobId jobP) = Some jobP_claimed"
    by (simp add: findUnique_def jobP_claimed_def)
  obtain r1 s1 where f1: "finalizeFailed [jobP_claimed] (jobId jobP) (str ''Unknown error'') 2 = Some (r1, s1)"
    by (simp add: finalizeFailed_def update_def f)
  obtain r2 s2 where f2: "finalizeCompleted [jobP_claimed] (jobId jobP) (str ''{}'') 2 = Some (r2, s2)"
    by (simp add: finalizeCompleted_def update_def f)
  from invariant_preserved[OF h', where now = 2 and i = "jobId jobP" and m = "str ''Unknown error''"] f1
  have t1: "table_ok s1" by blast
  have e: "\<forall>k\<in>set [jobP_claimed]. jobId k = jobId jobP \<longrightarrow> errorMessage k = None"
    by (simp add: jobP_claimed_def jobP_def)
  from invariant_preserved[OF h', where now = 2 and i = "jobId jobP" and res = "str ''{}''"] f2 e
  have t2: "table_ok s2" by blast
  have k: "patchKeeps bodyReset" by (simp add: patchKeeps_def bodyReset_def)
  from invariant_preserved[OF h, where now = 7 and i = "jobId jobP" and body = bodyReset] k
  have t3: "table_ok (snd (jobPATCH [jobP] (jobId jobP) bodyReset 7))" by blast
  from h c u h' hu f1 t1 f2 t2 k t3 show ?thesis by blast
qed

text \<open>The claim as it stands fails twice: a PATCH to COMPLETED writes the status alone,
  and the final write to COMPLETED of a row that was marked as failed leaves the error
  message in the row.\<close>

theorem writes_break_invariant:
  "\<not> (\<forall>st i body now. table_ok st \<longrightarrow> table_ok (snd (jobPATCH st i body now)))
   \<and> \<not> (\<forall>st i res now row st'. table_ok st \<and> finalizeCompleted st i res now = Some (row, st')
          \<longrightarrow> table_ok st')"
proof
  show "\<not> (\<forall>st i body now. table_ok st \<longrightarrow> table_ok (snd (jobPATCH st i body now)))"
  proof
    assume a: "\<forall>st i body now. table_ok st \<longrightarrow> table_ok (snd (jobPATCH st i body now))"
    have "table_ok [jobP]" by (simp add: table_ok_def row_ok_def terminal_def jobP_def)
    with a have "table_ok (snd (jobPATCH [jobP] (jobId jobP) bodyCompleted 7))" by blast
    then show False
      by (simp add: table_ok_def row_ok_def terminal_def jobP_def jobPATCH_def truthy_def update_def
          findUnique_def updateData_def Let_def bodyCompleted_def)
  qed
  show "\<not> (\<forall>st i res now row st'. table_ok st \<and> finalizeCompleted st i res now = Some (row, st')
          \<longrightarrow> table_ok st')"
  proof
    assume a: "\<forall>st i res now row st'. table_ok st \<and> finalizeCompleted st i res now = Some (row, st')
          \<longrightarrow> table_ok st'"
    define rowF where "rowF = jobP\<lparr>status := FAILED, errorMessage := Some (str ''stuck''),
      processedAt := Some 2, updatedAt := 2\<rparr>"
    define rowC where "rowC = rowF\<lparr>status := COMPLETED, ocrResult := Some (str ''{}''),
      processedAt := Some 3, updatedAt := 3\<rparr>"
    have h: "table_ok [rowF]"
      by (simp add: rowF_def table_ok_def row_ok_def terminal_def jobP_def)
    have f: "finalizeCompleted [rowF] (jobId jobP) (str ''{}'') 3 = Some (rowC, [rowC])"
      by (simp add: finalizeCompleted_def update_def findUnique_def rowF_def rowC_def)
    from a h f have "table_ok [rowC]" by blast
    then show False
      by (simp add: rowC_def rowF_def table_ok_def row_ok_def terminal_def jobP_def)
  qed
qed

text \<open>A run of the worker keeps the invariant when the others keep it and leave the
  claimed row without an error message.\<close>

lemma processNextJob_table_ok:
  assumes "table_ok st"
    and "\<And>job claimed. claim st (claimTime W) = Some (job, claimed) \<Longrightarrow>
           table_ok (others claimed)
           \<and> (\<forall>k\<in>set (others claimed). jobId k = jobId job \<longrightarrow> errorMessage k = None)"
  shows "table_ok (table (processNextJob W others st))"
proof (cases "claim st (claimTime W)")
  case None
  then show ?thesis using assms(1) by (simp add: processNextJob_def)
next
  case (Some p)
  obtain job claimed where p: "p = (job, claimed)" by (cases p)
  from assms(2)[OF Some[unfolded p]] have c: "table_ok (others claimed)"
    "\<forall>k\<in>set (others claimed). jobId k = jobId job \<longrightarrow> errorMessage k = None" by simp_all
  show ?thesis
  proof (cases "tryJob W (others claimed) job")
    case (Inr r)
    from tryJob_Inr[OF Inr] obtain res row where
      f: "finalizeCompleted (others claimed) (jobId job) res (finishTime W) = Some (row, table r)"
      by blast
    from finalizeCompleted_table_ok[OF f c(1)] c(2) have "table_ok (table r)" by simp
    then show ?thesis using Some p Inr by (simp add: processNextJob_def)
  next
    case (Inl q)
    obtain t ws where q: "q = (t, ws)" by (cases q)
    show ?thesis
    proof (cases "finalizeFailed (others claimed) (jobId job) (messageOf t (str ''Unknown error'')) (finishTime W)")
      case None
      then show ?thesis using Some p Inl q c(1) by (simp add: processNextJob_def Let_def)
    next
      case (Some u)
      obtain row st2 where u: "u = (row, st2)" by (cases u)
      from finalizeFailed_table_ok[OF Some[unfolded u] c(1)] have "table_ok st2" .
      then show ?thesis using \<open>claim st (claimTime W) = Some p\<close> p Inl q Some u
        by (simp add: processNextJob_def Let_def)
    qed
  qed
qed

text \<open>
  How the final write to COMPLETED comes to break the invariant. The worker claims the
  job; while it reads the file, an administrator marks the job as failed with a message,
  which keeps the invariant; the worker then writes COMPLETED with the result, and the
  row is COMPLETED with an error message.
\<close>

lemma example_valid:
  "validateFile (libraries world0) (fileData jobP_claimed) (mimeType jobP_claimed)
     = (valid (str ''image/png'') [137, 80, 78, 71], [])"
proof -
  have n: "normalizeMimeType (str ''image/png'') = str ''image/png''"
    by (simp add: normalizeMimeType_def trim_def toLowerCase_def lower_def is_upper_def
        is_space_def str_def)
  show ?thesis
    by (simp add: validateFile_def world0_def libs0_def jobP_claimed_def jobP_def MAX_FILE_SIZE_def
        ALLOWED_TYPES_def n startsWith_def validateImage_def falsy_def MAX_IMAGE_DIMENSION_def
        MAX_IMAGE_PIXELS_def)
qed

lemma adminFails_claimed:
  "adminFails [jobP_claimed]
     = [jobP\<lparr>status := FAILED, errorMessage := Some (str ''stuck''), processedAt := Some 2,
             updatedAt := 2\<rparr>]"
  by (simp add: adminFails_def jobPATCH_def bodyFailed_def truthy_def update_def findUnique_def
      updateData_def Let_def jobP_claimed_def jobP_def)

lemma finalize_after_patch:
  "table_ok [jobP] \<and> patchKeeps bodyFailed
   \<and> claim [jobP] (claimTime world0) = Some (jobP_claimed, [jobP_claimed])
   \<and> table_ok [jobP_claimed] \<and> table_ok (adminFails [jobP_claimed])
   \<and> table (processNextJob world0 adminFails [jobP])
       = [jobP\<lparr>status := COMPLETED, ocrResult := Some (str ''{}''),
               errorMessage := Some (str ''stuck''), processedAt := Some 2, updatedAt := 2\<rparr>]
   \<and> \<not> table_ok (table (processNextJob world0 adminFails [jobP]))"
proof -
  have h: "table_ok [jobP]" by (simp add: table_ok_def row_ok_def terminal_def jobP_def)
  have k: "patchKeeps bodyFailed" by (simp add: patchKeeps_def bodyFailed_def truthy_def)
  have c: "claim [jobP] (claimTime world0) = Some (jobP_claimed, [jobP_claimed])"
    by (simp add: claim_def findFirstPending_def update_def findUnique_def jobP_def world0_def
        jobP_claimed_def)
  have h': "table_ok [jobP_claimed]"
    by (simp add: table_ok_def row_ok_def terminal_def jobP_claimed_def jobP_def)
  note a = adminFails_claimed
  have h'': "table_ok (adminFails [jobP_claimed])"
    unfolding a by (simp add: table_ok_def row_ok_def terminal_def jobP_def)
  have t: "table (processNextJob world0 adminFails [jobP])
       = [jobP\<lparr>status := COMPLETED, ocrResult := Some (str ''{}''),
               errorMessage := Some (str ''stuck''), processedAt := Some 2, updatedAt := 2\<rparr>]"
  proof -
    have pd: "processDocument world0 b m = Inr (str ''{}'')" for b m by (simp add: world0_def)
    have cw: "truthy (callbackWebhook jobP_claimed)"
      by (simp add: truthy_def jobP_claimed_def jobP_def)
    have fin: "finalizeCompleted (adminFails [jobP_claimed]) (jobId jobP_claimed) (str ''{}'')
        (finishTime world0)
      = Some (jobP\<lparr>status := COMPLETED, ocrResult := Some (str ''{}''),
               errorMessage := Some (str ''stuck''), processedAt := Some 2, updatedAt := 2\<rparr>,
              [jobP\<lparr>status := COMPLETED, ocrResult := Some (str ''{}''),
               errorMessage := Some (str ''stuck''), processedAt := Some 2, updatedAt := 2\<rparr>])"
      unfolding a by (simp add: finalizeCompleted_def update_def findUnique_def jobP_claimed_def
          jobP_def world0_def)
    obtain rq er where sc: "sendCallback world0 (the (callbackWebhook jobP_claimed))
        (jobId jobP_claimed) (str ''{}'') (email jobP_claimed) = (rq, er)"
      by (cases "sendCallback world0 (the (callbackWebhook jobP_claimed))
        (jobId jobP_claimed) (str ''{}'') (email jobP_claimed)")
    have tj: "tryJob world0 (adminFails [jobP_claimed]) jobP_claimed
      = Inr \<lparr>returned = True,
             table = [jobP\<lparr>status := COMPLETED, ocrResult := Some (str ''{}''),
               errorMessage := Some (str ''stuck''), processedAt := Some 2, updatedAt := 2\<rparr>],
             sent = rq, logged = [] @ er\<rparr>"
      unfolding tryJob_def example_valid by (simp add: valid_def pd fin sc cw)
    show ?thesis unfolding processNextJob_def c by (simp add: tj)
  qed
  have n: "\<not> table_ok (table (processNextJob world0 adminFails [jobP]))"
    unfolding t by (simp add: table_ok_def row_ok_def terminal_def jobP_def)
  from h k c h' h'' t n show ?thesis by blast
qed

section \<open>Workers side by side\<close>

lemma claim_steps:
  "claim st now =
     (case claimerStep now Begun st of
        (Found pendingJob, st1) \<Rightarrow>
          (case claimerStep now (Found pendingJob) st1 of
             (Obtained job, st2) \<Rightarrow> Some (job, st2)
           | _ \<Rightarrow> None)
      | _ \<Rightarrow> None)"
  by (auto simp: claim_def claimerStep_def split: option.splits)

text \<open>Whenever two workers have both found the pending row before either updates it,
  both updates succeed and both workers hold the row as PROCESSING.\<close>

lemma both_obtain:
  assumes "findFirstPending st = Some pendingJob"
  shows "\<exists>job1 st1 job2 st2.
      claimerStep t (Found pendingJob) st = (Obtained job1, st1)
    \<and> claimerStep t' (Found pendingJob) st1 = (Obtained job2, st2)
    \<and> jobId job1 = jobId pendingJob \<and> jobId job2 = jobId pendingJob
    \<and> status job1 = PROCESSING \<and> status job2 = PROCESSING"
proof -
  let ?d = "\<lambda>j::Job. j\<lparr>status := PROCESSING\<rparr>"
  from findFirstPending_mem[OF assms] have "pendingJob \<in> set st" by simp
  then have "findUnique st (jobId pendingJob) \<noteq> None" by (auto simp: findUnique_None)
  then obtain j where j: "findUnique st (jobId pendingJob) = Some j" by blast
  then obtain job1 st1 where u1: "update st (jobId pendingJob) ?d t = Some (job1, st1)"
    by (simp add: update_def)
  from update_find[OF u1] have f1: "findUnique st1 (jobId pendingJob) = Some job1" by simp
  then obtain job2 st2 where u2: "update st1 (jobId pendingJob) ?d t' = Some (job2, st2)"
    by (simp add: update_def)
  from update_cases[OF u1] j have p1: "job1 = j\<lparr>status := PROCESSING, updatedAt := t\<rparr>" by auto
  from update_cases[OF u2] f1 have p2: "job2 = job1\<lparr>status := PROCESSING, updatedAt := t'\<rparr>" by auto
  from findUnique_mem[OF j] have "jobId j = jobId pendingJob" by simp
  with p1 p2 u1 u2 show ?thesis by (simp add: claimerStep_def)
qed

text \<open>
  C2. Two workers and a table with one pending job. When both run \<open>findFirst\<close> before
  either runs \<open>update\<close>, each of them obtains the job, updated to PROCESSING: the update
  of the second selects the row by \<open>id\<close> and does not ask for it to be pending still.
  When one worker's transaction runs before the other's, the second finds no job.
\<close>

theorem claim_race:
  "runSchedule [0, 1, 0, 1] 1 ([Begun, Begun], [jobP])
     = ([Obtained (jobP\<lparr>status := PROCESSING, updatedAt := 3\<rparr>),
         Obtained (jobP\<lparr>status := PROCESSING, updatedAt := 4\<rparr>)],
        [jobP\<lparr>status := PROCESSING, updatedAt := 4\<rparr>])
   \<and> runSchedule [0, 0, 1, 1] 1 ([Begun, Begun], [jobP])
     = ([Obtained (jobP\<lparr>status := PROCESSING, updatedAt := 2\<rparr>), NoJob],
        [jobP\<lparr>status := PROCESSING, updatedAt := 2\<rparr>])"
  by (simp add: claimerStep_def findFirstPending_def update_def findUnique_def jobP_def)

section \<open>The webhook\<close>

lemma sendCallback_once:
  "\<exists>q. fst (sendCallback W u i r m) = [q] \<and> req_url q = u
     \<and> (delivered (fetch W q) \<or> (\<exists>t. snd (sendCallback W u i r m) = [Err (str ''Failed to send webhook for job '' @ i @ str '':'') t]))"
  by (auto simp: sendCallback_def Let_def delivered_def split: fetch_outcome.splits)

text \<open>A run that completes a job with a webhook, whatever the others did to the table in
  between, as long as the job's row is still there.\<close>

lemma run_completed:
  assumes "claim st (claimTime W) = Some (job, st1)"
    and "validateFile (libraries W) (fileData job) (mimeType job) = (v, ws)"
    and "isValid v"
    and "processDocument W (case sanitizedBuffer v of Some b \<Rightarrow> b | None \<Rightarrow> fileData job) (mimeType job) = Inr resultJson"
    and "truthy (callbackWebhook job)"
    and "findUnique (others st1) (jobId job) = Some mid"
  shows "returned (processNextJob W others st)
     \<and> (\<exists>row. findUnique (table (processNextJob W others st)) (jobId job) = Some row
            \<and> status row = COMPLETED \<and> ocrResult row = Some resultJson
            \<and> processedAt row = Some (finishTime W) \<and> errorMessage row = errorMessage mid)
     \<and> (\<exists>q. sent (processNextJob W others st) = [q] \<and> req_url q = the (callbackWebhook job)
            \<and> (delivered (fetch W q)
                \<or> (\<exists>t. Err (str ''Failed to send webhook for job '' @ jobId job @ str '':'') t
                       \<in> set (logged (processNextJob W others st)))))
     \<and> table (processNextJob (W\<lparr>fetch := f\<rparr>) others st) = table (processNextJob W others st)"
proof -
  define d :: "Job \<Rightarrow> Job" where "d = (\<lambda>j. j\<lparr>status := COMPLETED, ocrResult := Some resultJson, processedAt := Some (finishTime W)\<rparr>)"
  define row where "row = (d mid)\<lparr>updatedAt := finishTime W\<rparr>"
  define st2 where "st2 = map (\<lambda>k. if jobId k = jobId job then (d k)\<lparr>updatedAt := finishTime W\<rparr> else k) (others st1)"
  have fc: "finalizeCompleted (others st1) (jobId job) resultJson (finishTime W) = Some (row, st2)"
    by (simp add: finalizeCompleted_def update_def assms(6) row_def st2_def d_def)
  have fr: "findUnique st2 (jobId job) = Some row"
    using update_find[OF fc[unfolded finalizeCompleted_def]] by simp
  obtain rq er where sc: "sendCallback W (the (callbackWebhook job)) (jobId job) resultJson (email job) = (rq, er)"
    by (cases "sendCallback W (the (callbackWebhook job)) (jobId job) resultJson (email job)")
  have tj: "tryJob W (others st1) job = Inr \<lparr>returned = True, table = st2, sent = rq, logged = ws @ er\<rparr>"
    using assms(2-5) fc sc by (simp add: tryJob_def)
  have pn: "processNextJob W others st = \<lparr>returned = True, table = st2, sent = rq, logged = ws @ er\<rparr>"
    using assms(1) tj by (simp add: processNextJob_def)
  obtain rq' er' where sc': "sendCallback (W\<lparr>fetch := f\<rparr>) (the (callbackWebhook job)) (jobId job) resultJson (email job) = (rq', er')"
    by (cases "sendCallback (W\<lparr>fetch := f\<rparr>) (the (callbackWebhook job)) (jobId job) resultJson (email job)")
  have tj': "tryJob (W\<lparr>fetch := f\<rparr>) (others st1) job = Inr \<lparr>returned = True, table = st2, sent = rq', logged = ws @ er'\<rparr>"
    using assms(2-5) fc sc' by (simp add: tryJob_def)
  have pn': "table (processNextJob (W\<lparr>fetch := f\<rparr>) others st) = st2"
    using assms(1) tj' by (simp add: processNextJob_def)
  from sendCallback_once[of W "the (callbackWebhook job)" "jobId job" resultJson "email job"] sc
  obtain q where q: "rq = [q]" "req_url q = the (callbackWebhook job)"
    "delivered (fetch W q) \<or> (\<exists>t. er = [Err (str ''Failed to send webhook for job '' @ jobId job @ str '':'') t])"
    by auto
  have "status row = COMPLETED \<and> ocrResult row = Some resultJson
      \<and> processedAt row = Some (finishTime W) \<and> errorMessage row = errorMessage mid"
    by (simp add: row_def d_def)
  with fr q pn pn' show ?thesis by auto
qed

lemma claim_find:
  assumes "claim st now = Some (job, st1)"
  shows "findUnique st1 (jobId job) = Some job"
proof -
  from claim_update[OF assms] obtain pj :: Job where
    u: "update st (jobId pj) (\<lambda>j. j\<lparr>status := PROCESSING\<rparr>) now = Some (job, st1)"
    by blast
  from update_cases[OF u] have id: "jobId job = jobId pj" by (auto dest: findUnique_mem)
  from update_find[OF u] show ?thesis by (simp add: id)
qed

text \<open>
  C6. Take a run of the worker that claims a job with a webhook, whose file is valid and
  whose OCR returns. When no one else writes the table meanwhile: whatever \<open>fetch\<close> does
  (any status code, or an exception), the run returns true, the job's row is COMPLETED
  with the result and the time of the final write, and its error message is untouched;
  exactly one request was sent, to the job's webhook; when that request was not
  delivered with a 2xx status, the failure is in the error log; and the table is the
  same as under any other behaviour \<open>f\<close> of \<open>fetch\<close>. The same holds whatever the others do
  to the table between the claim and the final write, as long as they leave the job's
  row in it: the error message of the row is then the one that they left.
\<close>

theorem webhook_failure_swallowed:
  assumes "claim st (claimTime W) = Some (job, st1)"
    and "validateFile (libraries W) (fileData job) (mimeType job) = (v, ws)"
    and "isValid v"
    and "processDocument W (case sanitizedBuffer v of Some b \<Rightarrow> b | None \<Rightarrow> fileData job) (mimeType job) = Inr resultJson"
    and "truthy (callbackWebhook job)"
  shows "returned (processNextJob W (\<lambda>t. t) st)
     \<and> (\<exists>row. findUnique (table (processNextJob W (\<lambda>t. t) st)) (jobId job) = Some row
            \<and> status row = COMPLETED \<and> ocrResult row = Some resultJson
            \<and> processedAt row = Some (finishTime W) \<and> errorMessage row = errorMessage job)
     \<and> (\<exists>q. sent (processNextJob W (\<lambda>t. t) st) = [q] \<and> req_url q = the (callbackWebhook job)
            \<and> (delivered (fetch W q)
                \<or> (\<exists>t. Err (str ''Failed to send webhook for job '' @ jobId job @ str '':'') t
                       \<in> set (logged (processNextJob W (\<lambda>t. t) st)))))
     \<and> table (processNextJob (W\<lparr>fetch := f\<rparr>) (\<lambda>t. t) st) = table (processNextJob W (\<lambda>t. t) st)
     \<and> (\<forall>others mid. findUnique (others st1) (jobId job) = Some mid \<longrightarrow>
           returned (processNextJob W others st)
           \<and> (\<exists>row. findUnique (table (processNextJob W others st)) (jobId job) = Some row
                  \<and> status row = COMPLETED \<and> ocrResult row = Some resultJson
                  \<and> processedAt row = Some (finishTime W) \<and> errorMessage row = errorMessage mid)
           \<and> (\<exists>q. sent (processNextJob W others st) = [q] \<and> req_url q = the (callbackWebhook job)
                  \<and> (delivered (fetch W q)
                      \<or> (\<exists>t. Err (str ''Failed to send webhook for job '' @ jobId job @ str '':'') t
                             \<in> set (logged (processNextJob W others st)))))
           \<and> table (processNextJob (W\<lparr>fetch := f\<rparr>) others st) = table (processNextJob W others st))"
proof -
  from claim_find[OF assms(1)] have fj: "findUnique ((\<lambda>t. t) st1) (jobId job) = Some job" by simp
  note alone = run_completed[where others = "\<lambda>t. t" and f = f, OF assms fj[simplified]]
  have "returned (processNextJob W others st)
           \<and> (\<exists>row. findUnique (table (processNextJob W others st)) (jobId job) = Some row
                  \<and> status row = COMPLETED \<and> ocrResult row = Some resultJson
                  \<and> processedAt row = Some (finishTime W) \<and> errorMessage row = errorMessage mid)
           \<and> (\<exists>q. sent (processNextJob W others st) = [q] \<and> req_url q = the (callbackWebhook job)
                  \<and> (delivered (fetch W q)
                      \<or> (\<exists>t. Err (str ''Failed to send webhook for job '' @ jobId job @ str '':'') t
                             \<in> set (logged (processNextJob W others st)))))
           \<and> table (processNextJob (W\<lparr>fetch := f\<rparr>) others st) = table (processNextJob W others st)"
    if "findUnique (others st1) (jobId job) = Some mid" for others mid
    by (rule run_completed[where others = others, OF assms that])
  with alone show ?thesis by blast
qed

theorem webhook_failure_swallowed_witness:
  "claim [jobP] (claimTime world0) = Some (jobP_claimed, [jobP_claimed])
   \<and> isValid (fst (validateFile (libraries world0) (fileData jobP_claimed) (mimeType jobP_claimed)))
   \<and> truthy (callbackWebhook jobP_claimed)
   \<and> findUnique [jobP_claimed] (jobId jobP_claimed) = Some jobP_claimed
   \<and> (\<forall>q. \<not> delivered (fetch world0 q))
   \<and> returned (processNextJob world0 (\<lambda>t. t) [jobP])
   \<and> (\<exists>row. findUnique (table (processNextJob world0 (\<lambda>t. t) [jobP])) (jobId jobP_claimed) = Some row
          \<and> status row = COMPLETED \<and> ocrResult row = Some (str ''{}'')
          \<and> errorMessage row = errorMessage jobP_claimed)
   \<and> table (processNextJob (world0\<lparr>fetch := (\<lambda>q. Response 200)\<rparr>) (\<lambda>t. t) [jobP])
       = table (processNextJob world0 (\<lambda>t. t) [jobP])
   \<and> (\<exists>mid. findUnique (adminFails [jobP_claimed]) (jobId jobP_claimed) = Some mid
          \<and> errorMessage mid = Some (str ''stuck''))
   \<and> (\<exists>row. findUnique (table (processNextJob world0 adminFails [jobP])) (jobId jobP_claimed) = Some row
          \<and> status row = COMPLETED \<and> ocrResult row = Some (str ''{}'')
          \<and> errorMessage row = Some (str ''stuck''))"
proof -
  have h1: "claim [jobP] (claimTime world0) = Some (jobP_claimed, [jobP_claimed])"
    by (simp add: claim_def findFirstPending_def update_def findUnique_def jobP_def world0_def
        jobP_claimed_def)
  have h2: "validateFile (libraries world0) (fileData jobP_claimed) (mimeType jobP_claimed)
      = (fst (validateFile (libraries world0) (fileData jobP_claimed) (mimeType jobP_claimed)),
         snd (validateFile (libraries world0) (fileData jobP_claimed) (mimeType jobP_claimed)))"
    by simp
  have h3: "isValid (fst (validateFile (libraries world0) (fileData jobP_claimed) (mimeType jobP_claimed)))"
    by (simp add: example_valid valid_def)
  have h4: "processDocument world0
      (case sanitizedBuffer (fst (validateFile (libraries world0) (fileData jobP_claimed)
          (mimeType jobP_claimed))) of Some b \<Rightarrow> b | None \<Rightarrow> fileData jobP_claimed)
      (mimeType jobP_claimed) = Inr (str ''{}'')"
    by (simp add: world0_def)
  have h5: "truthy (callbackWebhook jobP_claimed)"
    by (simp add: truthy_def jobP_claimed_def jobP_def)
  have h6: "\<not> delivered (fetch world0 q)" for q
    by (simp add: delivered_def world0_def response_ok_def)
  have h7: "findUnique [jobP_claimed] (jobId jobP_claimed) = Some jobP_claimed"
    by (simp add: findUnique_def)
  define mid where "mid = jobP\<lparr>status := FAILED, errorMessage := Some (str ''stuck''),
    processedAt := Some 2, updatedAt := 2\<rparr>"
  have h8: "findUnique (adminFails [jobP_claimed]) (jobId jobP_claimed) = Some mid"
    unfolding adminFails_claimed by (simp add: findUnique_def mid_def jobP_claimed_def)
  have h9: "errorMessage mid = Some (str ''stuck'')" by (simp add: mid_def)
  note t = webhook_failure_swallowed[OF h1 h2 h3 h4 h5, where f = "\<lambda>q. Response 200"]
  from t h8 h9 have b: "\<exists>row. findUnique (table (processNextJob world0 adminFails [jobP])) (jobId jobP_claimed) = Some row
          \<and> status row = COMPLETED \<and> ocrResult row = Some (str ''{}'')
          \<and> errorMessage row = Some (str ''stuck'')" by (metis (no_types, lifting))
  from h8 h9 have c: "\<exists>mid. findUnique (adminFails [jobP_claimed]) (jobId jobP_claimed) = Some mid
          \<and> errorMessage mid = Some (str ''stuck'')" by blast
  from t h1 h3 h5 h6 h7 have a: "returned (processNextJob world0 (\<lambda>t. t) [jobP])
   \<and> (\<exists>row. findUnique (table (processNextJob world0 (\<lambda>t. t) [jobP])) (jobId jobP_claimed) = Some row
          \<and> status row = COMPLETED \<and> ocrResult row = Some (str ''{}'')
          \<and> errorMessage row = errorMessage jobP_claimed)
   \<and> table (processNextJob (world0\<lparr>fetch := (\<lambda>q. Response 200)\<rparr>) (\<lambda>t. t) [jobP])
       = table (processNextJob world0 (\<lambda>t. t) [jobP])" by auto
  from a b c h1 h3 h5 h6 h7 show ?thesis by blast
qed

section \<open>The status route\<close>

lemma keys_status:
  assumes "rx_test uuidRegex i" "findUnique st i = Some job"
  shows "statusGET st i = Resp 200 (bodyOf (statusGET st i)) \<and>
     keys (bodyOf (statusGET st i)) =
       baseKeys @ (if status job = COMPLETED then [str ''ocrResult'', str ''processedAt'']
           else if status job = FAILED then [str ''errorMessage'', str ''processedAt''] else [])"
  using assms by (simp add: statusGET_def keys_def bodyOf_def baseKeys_def)

lemma never_file:
  "str ''fileData'' \<notin> set (keys (bodyOf (statusGET st i)))
   \<and> str ''fileName'' \<notin> set (keys (bodyOf (statusGET st i)))"
  by (auto simp add: statusGET_def keys_def bodyOf_def split: option.split)

text \<open>
  C10. For a job that exists, the response of the status route has the status code 200;
  its body has the key \<open>ocrResult\<close> exactly when the job is COMPLETED, the key
  \<open>errorMessage\<close> exactly when it is FAILED, and the key \<open>processedAt\<close> exactly in these
  two cases; for a PENDING or PROCESSING job its keys are exactly id, status,
  documentType, email, createdAt and updatedAt; \<open>fileData\<close> and \<open>fileName\<close> are never
  among the keys.
\<close>

theorem status_response_fields:
  assumes "rx_test uuidRegex i" "findUnique st i = Some job"
  shows "statusGET st i = Resp 200 (bodyOf (statusGET st i))
     \<and> (str ''ocrResult'' \<in> set (keys (bodyOf (statusGET st i)))) = (status job = COMPLETED)
     \<and> (str ''errorMessage'' \<in> set (keys (bodyOf (statusGET st i)))) = (status job = FAILED)
     \<and> (str ''processedAt'' \<in> set (keys (bodyOf (statusGET st i))))
         = (status job = COMPLETED \<or> status job = FAILED)
     \<and> (if status job = PENDING \<or> status job = PROCESSING
         then keys (bodyOf (statusGET st i)) = baseKeys else True)
     \<and> str ''fileData'' \<notin> set (keys (bodyOf (statusGET st i)))
     \<and> str ''fileName'' \<notin> set (keys (bodyOf (statusGET st i)))"
  using keys_status[OF assms] never_file[of st i]
  by (cases "status job") (simp_all add: baseKeys_def)

theorem status_response_fields_witness:
  "rx_test uuidRegex (jobId job0) \<and> findUnique [job0] (jobId job0) = Some job0
   \<and> statusGET [job0] (jobId job0) = Resp 200 (bodyOf (statusGET [job0] (jobId job0)))
   \<and> str ''ocrResult'' \<in> set (keys (bodyOf (statusGET [job0] (jobId job0))))
   \<and> str ''errorMessage'' \<notin> set (keys (bodyOf (statusGET [job0] (jobId job0))))
   \<and> str ''fileData'' \<notin> set (keys (bodyOf (statusGET [job0] (jobId job0))))"
proof -
  have h1: "rx_test uuidRegex (jobId job0)" by code_simp
  have h2: "findUnique [job0] (jobId job0) = Some job0" by (simp add: findUnique_def)
  have h3: "status job0 = COMPLETED" by (simp add: job0_def)
  from status_response_fields[OF h1 h2] h1 h2 h3 show ?thesis by simp
qed

section \<open>Stuck jobs\<close>

text \<open>The statistics list exactly the stuck jobs.\<close>

lemma stuckJobsQuery_stuck: "stuckJobsQuery st now = filter (stuck now) st"
  unfolding stuckJobsQuery_def stuck_def Let_def
  by (rule filter_cong[OF refl]) auto

text \<open>
  C7. The flag \<open>isStuck\<close> of the listing measures from \<open>createdAt\<close>: twenty minutes
  after its creation, a job that was claimed one minute ago is flagged, though it is not
  stuck and the statistics do not list it.
\<close>

theorem isStuck_measures_from_createdAt:
  "isStuck (20 * 60 * 1000) job1 \<and> \<not> stuck (20 * 60 * 1000) job1
   \<and> stuckJobs [job1] (20 * 60 * 1000) = []"
  by (simp add: isStuck_def processingTime_def stuck_def stuckJobs_def stuckJobsQuery_def job1_def)

section \<open>Notable data: BTW before IBAN\<close>

text \<open>A class repeated exactly \<open>n\<close> times matches \<open>n\<close> characters of the class.\<close>

lemma all_less_Suc_shift: "(\<forall>k<Suc n. Q k) = (Q 0 \<and> (\<forall>k<n. Q (Suc k)))"
  by (metis less_Suc_eq_0_disj Suc_less_eq zero_less_Suc)

lemma rep_exact:
  assumes "\<And>a. f a = (if c a then [Suc a] else [])"
  shows "rep_ends f n n i = (if (\<forall>k<n. c (i + k)) then [i + n] else [])"
proof (induction n arbitrary: i)
  case 0
  show ?case by simp
next
  case (Suc n)
  show ?case by (cases "c i") (simp_all add: assms[of i] Suc.IH all_less_Suc_shift)
qed

lemma rep_exact_Cls:
  "rep_ends (ends (Cls p) s) n n i
     = (if (\<forall>k<n. i + k < length s \<and> p (s ! (i + k))) then [i + n] else [])"
  by (rule rep_exact) simp

lemma ends_times_Cls:
  "ends (times n (Cls p)) s i
     = (if (\<forall>k<n. i + k < length s \<and> p (s ! (i + k))) then [i + n] else [])"
  by (simp add: times_def rep_exact_Cls)

text \<open>A match never ends before its start.\<close>

lemma rep_ends_ge:
  assumes "\<And>j e. e \<in> set (f j) \<Longrightarrow> j \<le> e"
  shows "e \<in> set (rep_ends f h lo i) \<Longrightarrow> i \<le> e"
proof (induction h arbitrary: lo i)
  case 0
  then show ?case by (simp split: if_splits)
next
  case (Suc h)
  then show ?case using assms by (fastforce split: if_splits)
qed

lemma ends_ge: "e \<in> set (ends r s i) \<Longrightarrow> i \<le> e"
proof (induction r arbitrary: i e)
  case (Rep lo hi r)
  show ?case using Rep.prems rep_ends_ge[of "ends r s", OF Rep.IH] by fastforce
qed (fastforce split: if_splits)+

text \<open>What \<open>exec\<close> returns: the first position from \<open>lastIndex\<close> with a match.\<close>

lemma rx_exec_Some:
  assumes "rx_exec r s k = Some (i, e)"
  shows "k \<le> i \<and> i \<le> length s \<and> ends r s i \<noteq> [] \<and> e = hd (ends r s i)
     \<and> (\<forall>j. k \<le> j \<and> j < i \<longrightarrow> ends r s j = [])"
proof -
  from assms have f: "find (\<lambda>i. ends r s i \<noteq> []) [k..<Suc (length s)] = Some i"
    and e: "e = hd (ends r s i)"
    by (auto simp: rx_exec_def simp del: upt_Suc split: option.splits)
  from f obtain m where m: "m < length [k..<Suc (length s)]" "ends r s ([k..<Suc (length s)] ! m) \<noteq> []"
    "i = [k..<Suc (length s)] ! m" "\<forall>j<m. ends r s ([k..<Suc (length s)] ! j) = []"
    unfolding find_Some_iff by blast
  from m(1) have lt: "k + m < Suc (length s)" by (simp del: upt_Suc)
  with m(3) have i: "i = k + m" by (simp del: upt_Suc)
  have "\<forall>j. k \<le> j \<and> j < i \<longrightarrow> ends r s j = []"
  proof (intro allI impI)
    fix j assume j: "k \<le> j \<and> j < i"
    then have "j - k < m" using i by arith
    with m(4) have "ends r s ([k..<Suc (length s)] ! (j - k)) = []" by blast
    moreover have "[k..<Suc (length s)] ! (j - k) = j" using j i lt by (simp del: upt_Suc)
    ultimately show "ends r s j = []" by simp
  qed
  with m(2) i lt e show ?thesis by (simp del: upt_Suc)
qed

lemma rx_exec_None: "rx_exec r s k = None \<Longrightarrow> k \<le> j \<Longrightarrow> j \<le> length s \<Longrightarrow> ends r s j = []"
  by (auto simp: rx_exec_def find_None_iff simp del: upt_Suc split: option.splits)

text \<open>The loop over \<open>exec\<close> returns when no match is empty.\<close>

lemma execAll_total:
  "(\<forall>i e. e \<in> set (ends r s i) \<longrightarrow> i < e) \<Longrightarrow> \<exists>ms. execAll r s k = Some ms"
proof (induction r s k rule: execAll.induct)
  case (1 r s k)
  show ?case
  proof (cases "length s < k")
    case True
    then show ?thesis by (simp add: execAll.simps[of r s k])
  next
    case False
    show ?thesis
    proof (cases "rx_exec r s k")
      case None
      with False show ?thesis by (simp add: execAll.simps[of r s k])
    next
      case (Some x)
      obtain i e where x: "x = (i, e)" by (cases x)
      from rx_exec_Some[OF Some[unfolded x]] have "k \<le> i" "e \<in> set (ends r s i)" by auto
      with "1.prems" have ke: "\<not> e \<le> k" by fastforce
      from "1.IH"[OF False Some x[symmetric] ke "1.prems"] obtain ms where "execAll r s e = Some ms" by blast
      with False Some x ke show ?thesis by (simp add: execAll.simps[of r s k])
    qed
  qed
qed

text \<open>One step of a sequence, by the shape of its head.\<close>

lemma ends_Seq_times:
  "ends (Seq (times n (Cls p)) r) s i
     = (if (\<forall>k<n. i + k < length s \<and> p (s ! (i + k))) then ends r s (i + n) else [])"
  by (auto simp: ends_times_Cls)

lemma ends_Seq_Cls_if:
  "ends (Seq (Cls p) r) s i = (if i < length s \<and> p (s ! i) then ends r s (i + 1) else [])"
  by auto

lemma ends_Seq_Bnd:
  "ends (Seq (Bnd w) r) s i
     = (if (0 < i \<and> w (s ! (i - 1))) \<noteq> (i < length s \<and> w (s ! i)) then ends r s i else [])"
  by auto

lemma ends_Seq_NotBehind:
  "ends (Seq (NotBehind p) r) s i = (if 0 < i \<and> p (s ! (i - 1)) then [] else ends r s i)"
  by auto

text \<open>Where the BTW pattern matches: fourteen characters of the shape, between two word boundaries.\<close>

lemma btw_offsets:
  "i + 2 + 9 = i + 11" "i + 11 + 1 = i + 12" "i + 12 + 2 = i + 14" "i + 14 - 1 = i + 13"
  for i :: nat
  by simp_all

lemmas btw_unfold = btwPattern_def seqs.simps lit_def ends_Seq_Bnd ends_Seq_times ends_Seq_Cls_if
  ends.simps(8) btw_offsets

lemma ends_btw_mem:
  assumes "e \<in> set (ends btwPattern s i)"
  shows "e = i + 14
     \<and> ((0 < i \<and> is_word (s ! (i - 1))) \<noteq> (i < length s \<and> is_word (s ! i)))
     \<and> (\<forall>k<2. i + k < length s \<and> is_upper (s ! (i + k)))
     \<and> (\<forall>k<9. i + 2 + k < length s \<and> is_digit (s ! (i + 2 + k)))
     \<and> i + 11 < length s \<and> s ! (i + 11) = ch CHR ''B''
     \<and> (\<forall>k<2. i + 12 + k < length s \<and> is_digit (s ! (i + 12 + k)))"
proof -
  note a = assms[unfolded btw_unfold]
  show ?thesis
  proof (cases "(0 < i \<and> is_word (s ! (i - 1))) \<noteq> (i < length s \<and> is_word (s ! i))")
    case False
    with a show ?thesis by simp
  next
    case A: True
    show ?thesis
    proof (cases "\<forall>k<2. i + k < length s \<and> is_upper (s ! (i + k))")
      case False
      with a A show ?thesis by simp
    next
      case U: True
      show ?thesis
      proof (cases "\<forall>k<9. i + 2 + k < length s \<and> is_digit (s ! (i + 2 + k))")
        case False
        with a A U show ?thesis by simp
      next
        case D: True
        show ?thesis
        proof (cases "i + 11 < length s \<and> s ! (i + 11) = ch CHR ''B''")
          case False
          with a A U D show ?thesis by simp
        next
          case B: True
          show ?thesis
          proof (cases "\<forall>k<2. i + 12 + k < length s \<and> is_digit (s ! (i + 12 + k))")
            case False
            with a A U D B show ?thesis by simp
          next
            case D2: True
            from a A U D B D2 have "e = i + 14" by (simp split: if_splits)
            with A U D B D2 show ?thesis by blast
          qed
        qed
      qed
    qed
  qed
qed

lemma ends_btw_at:
  assumes "(0 < i \<and> is_word (s ! (i - 1))) \<noteq> (i < length s \<and> is_word (s ! i))"
    and "\<forall>k<2. i + k < length s \<and> is_upper (s ! (i + k))"
    and "\<forall>k<9. i + 2 + k < length s \<and> is_digit (s ! (i + 2 + k))"
    and "i + 11 < length s \<and> s ! (i + 11) = ch CHR ''B''"
    and "\<forall>k<2. i + 12 + k < length s \<and> is_digit (s ! (i + 12 + k))"
    and "is_word (s ! (i + 13)) \<noteq> (i + 14 < length s \<and> is_word (s ! (i + 14)))"
  shows "ends btwPattern s i = [i + 14]"
  unfolding btw_unfold using assms by simp

text \<open>A match that starts at a word boundary is found by the loop, when every match
  consists of word characters: an earlier match cannot run over its start.\<close>

lemma execAll_finds:
  assumes A: "\<And>i e. e \<in> set (ends r s i) \<Longrightarrow> i < e \<and> (\<forall>j. i \<le> j \<and> j < e \<longrightarrow> w (s ! j))"
    and M: "ends r s n \<noteq> []" "n \<le> length s"
    and B: "n = 0 \<or> \<not> w (s ! (n - 1))"
  shows "k \<le> n \<Longrightarrow> \<exists>ms. execAll r s k = Some ms \<and> (n, hd (ends r s n)) \<in> set ms"
proof (induction "n - k" arbitrary: k rule: less_induct)
  case less
  have tot: "\<exists>ms. execAll r s j = Some ms" for j
    by (rule execAll_total) (use A in blast)
  have nl: "\<not> length s < k" using less.prems M(2) by simp
  have "rx_exec r s k \<noteq> None"
  proof
    assume "rx_exec r s k = None"
    from rx_exec_None[OF this less.prems M(2)] M(1) show False by simp
  qed
  then obtain i e where x: "rx_exec r s k = Some (i, e)" by (cases "rx_exec r s k") auto
  from rx_exec_Some[OF x] have i: "k \<le> i" "ends r s i \<noteq> []" "e = hd (ends r s i)"
    "\<forall>j. k \<le> j \<and> j < i \<longrightarrow> ends r s j = []" by simp_all
  from i(2,3) have "e \<in> set (ends r s i)" by simp
  from A[OF this] have e: "i < e" "\<forall>j. i \<le> j \<and> j < e \<longrightarrow> w (s ! j)" by simp_all
  have "i \<le> n"
  proof (rule ccontr)
    assume "\<not> i \<le> n"
    with i(4) less.prems have "ends r s n = []" by simp
    with M(1) show False by simp
  qed
  have ke: "\<not> e \<le> k" using i(1) e(1) by simp
  have step: "execAll r s k = map_option ((#) (i, e)) (execAll r s e)"
    using nl x ke by (simp add: execAll.simps[of r s k])
  show ?case
  proof (cases "i = n")
    case True
    from tot[of e] obtain ms where "execAll r s e = Some ms" by blast
    with step True i(3) show ?thesis by simp
  next
    case False
    with \<open>i \<le> n\<close> have lt: "i < n" by simp
    have "e \<le> n"
    proof (rule ccontr)
      assume "\<not> e \<le> n"
      with lt have "i \<le> n - 1 \<and> n - 1 < e" by arith
      with e(2) have "w (s ! (n - 1))" by blast
      moreover from lt have "n \<noteq> 0" by simp
      ultimately show False using B by simp
    qed
    moreover have "n - e < n - k" using ke \<open>e \<le> n\<close> by simp
    ultimately obtain ms where "execAll r s e = Some ms" "(n, hd (ends r s n)) \<in> set ms"
      using less.hyps[of e] by blast
    with step show ?thesis by simp
  qed
qed

lemma btw_progress:
  assumes "e \<in> set (ends btwPattern s i)"
  shows "i < e \<and> (\<forall>j. i \<le> j \<and> j < e \<longrightarrow> is_word (s ! j))"
proof -
  from ends_btw_mem[OF assms] have e: "e = i + 14"
    and U: "\<forall>k<2. is_upper (s ! (i + k))"
    and D: "\<forall>k<9. is_digit (s ! (i + 2 + k))"
    and B: "s ! (i + 11) = ch CHR ''B''"
    and D2: "\<forall>k<2. is_digit (s ! (i + 12 + k))" by simp_all
  have "is_word (s ! j)" if j: "i \<le> j" "j < e" for j
  proof -
    from j e consider "j - i < 2" | "2 \<le> j - i" "j - i - 2 < 9" | "j = i + 11"
      | "12 \<le> j - i" "j - i - 12 < 2" by atomize_elim arith
    then show ?thesis
    proof cases
      case 1
      with U have "is_upper (s ! (i + (j - i)))" by blast
      moreover have "i + (j - i) = j" using j by simp
      ultimately show ?thesis unfolding is_word_def by simp
    next
      case 2
      with D have "is_digit (s ! (i + 2 + (j - i - 2)))" by blast
      moreover have "i + 2 + (j - i - 2) = j" using 2 j by simp
      ultimately show ?thesis unfolding is_word_def by (simp only:) simp
    next
      case 3
      with B show ?thesis by (simp add: is_word_def is_upper_def ch_def)
    next
      case 4
      with D2 have "is_digit (s ! (i + 12 + (j - i - 12)))" by blast
      moreover have "i + 12 + (j - i - 12) = j" using 4 j by simp
      ultimately show ?thesis unfolding is_word_def by (simp only:) simp
    qed
  qed
  with e show ?thesis by simp
qed

lemma btwValues_total: "\<exists>vs. btwValues s = Some vs"
proof -
  have "\<exists>ms. execAll btwPattern s 0 = Some ms"
    by (rule execAll_total) (use btw_progress in blast)
  then show ?thesis by (auto simp: btwValues_def)
qed

text \<open>The BTW shape, character by character.\<close>

lemma btwShape_ends:
  "rx_test btwShape v
     = ((\<forall>k<2. 0 + k < length v \<and> is_upper (v ! (0 + k)))
        \<and> (\<forall>k<9. 0 + 2 + k < length v \<and> is_digit (v ! (0 + 2 + k)))
        \<and> (0 + 11 < length v \<and> v ! (0 + 11) = ch CHR ''B'')
        \<and> (\<forall>k<2. 0 + 12 + k < length v \<and> is_digit (v ! (0 + 12 + k)))
        \<and> 0 + 14 = length v)"
  unfolding btwShape_def seqs.simps rx_test_Bol lit_def ends_Seq_times ends_Seq_Cls_if
    ends.simps(7) btw_offsets
  by (simp only: if_distrib[of "\<lambda>x. x \<noteq> []"] if_bool_eq_conj) (simp, blast)

lemma btwShape_iff:
  "rx_test btwShape v
     = (length v = 14 \<and> (\<forall>k<2. is_upper (v ! k)) \<and> (\<forall>k<9. is_digit (v ! (2 + k)))
        \<and> v ! 11 = ch CHR ''B'' \<and> (\<forall>k<2. is_digit (v ! (12 + k))))"
  unfolding btwShape_ends by (simp only: add_0) auto

text \<open>A BTW-shaped part of the text between two non-word characters (or the ends of
  the text) is pushed by the BTW loop.\<close>

lemma btw_found:
  assumes s: "s = pre @ v @ post" and v: "rx_test btwShape v"
    and L: "pre = [] \<or> \<not> is_word (last pre)" and R: "post = [] \<or> \<not> is_word (hd post)"
  shows "\<exists>vs. btwValues s = Some vs \<and> v \<in> set vs"
proof -
  define n where "n = length pre"
  from v[unfolded btwShape_iff] have len: "length v = 14"
    and U: "\<forall>k<2. is_upper (v ! k)" and D: "\<forall>k<9. is_digit (v ! (2 + k))"
    and B: "v ! 11 = ch CHR ''B''" and D2: "\<forall>k<2. is_digit (v ! (12 + k))" by simp_all
  have W: "s ! (n + k) = v ! k \<and> n + k < length s" if "k < 14" for k
    using that len by (simp add: s n_def nth_append)
  have before: "\<not> (0 < n \<and> is_word (s ! (n - 1)))"
  proof (cases "pre = []")
    case True
    then show ?thesis by (simp add: n_def)
  next
    case False
    then have "s ! (n - 1) = last pre" by (simp add: s n_def nth_append last_conv_nth)
    with L False show ?thesis by simp
  qed
  have after: "\<not> (n + 14 < length s \<and> is_word (s ! (n + 14)))"
  proof (cases "post = []")
    case True
    then show ?thesis by (simp add: s n_def len)
  next
    case False
    have "s ! (n + 14) = (v @ post) ! 14" unfolding s n_def by (rule nth_append_length_plus)
    also have "\<dots> = hd post" using False len by (simp add: nth_append hd_conv_nth)
    finally show ?thesis using R False by simp
  qed
  have u0: "is_upper (s ! n)" using W[of 0] U by simp
  have c1: "(0 < n \<and> is_word (s ! (n - 1))) \<noteq> (n < length s \<and> is_word (s ! n))"
    using before u0 W[of 0] by (simp add: is_word_def)
  have c2: "\<forall>k<2. n + k < length s \<and> is_upper (s ! (n + k))"
  proof (intro allI impI)
    fix k :: nat assume k: "k < 2"
    with W[of k] U show "n + k < length s \<and> is_upper (s ! (n + k))" by simp
  qed
  have c3: "\<forall>k<9. n + 2 + k < length s \<and> is_digit (s ! (n + 2 + k))"
  proof (intro allI impI)
    fix k :: nat assume k: "k < 9"
    then have "2 + k < 14" by simp
    from W[OF this] D k show "n + 2 + k < length s \<and> is_digit (s ! (n + 2 + k))"
      by (simp add: add.assoc)
  qed
  have c4: "n + 11 < length s \<and> s ! (n + 11) = ch CHR ''B''"
    using W[of 11] B by simp
  have c5: "\<forall>k<2. n + 12 + k < length s \<and> is_digit (s ! (n + 12 + k))"
  proof (intro allI impI)
    fix k :: nat assume k: "k < 2"
    then have "12 + k < 14" by simp
    from W[OF this] D2 k show "n + 12 + k < length s \<and> is_digit (s ! (n + 12 + k))"
      by (simp add: add.assoc)
  qed
  have "(1::nat) < 2" by simp
  with D2 have "is_digit (v ! (12 + 1))" by blast
  then have "is_word (s ! (n + 13))" using W[of 13] by (simp add: is_word_def)
  with after have c6: "is_word (s ! (n + 13)) \<noteq> (n + 14 < length s \<and> is_word (s ! (n + 14)))"
    by simp
  have at: "ends btwPattern s n = [n + 14]"
    by (rule ends_btw_at[OF c1 c2 c3 c4 c5 c6])
  have "\<exists>ms. execAll btwPattern s 0 = Some ms \<and> (n, hd (ends btwPattern s n)) \<in> set ms"
  proof (rule execAll_finds[where w = is_word])
    show "e \<in> set (ends btwPattern s i) \<Longrightarrow> i < e \<and> (\<forall>j. i \<le> j \<and> j < e \<longrightarrow> is_word (s ! j))"
      for i e by (rule btw_progress)
    show "ends btwPattern s n \<noteq> []" using at by simp
    show "n \<le> length s" by (simp add: s n_def)
    show "n = 0 \<or> \<not> is_word (s ! (n - 1))" using before by auto
    show "0 \<le> n" by simp
  qed
  then obtain ms where ms: "execAll btwPattern s 0 = Some ms" "(n, n + 14) \<in> set ms"
    using at by auto
  have "slice s n (n + 14) = v" by (simp add: slice_def s n_def len)
  with ms(2) have "v \<in> (\<lambda>(i, e). slice s i e) ` set ms"
    by (intro image_eqI[of _ _ "(n, n + 14)"]) simp_all
  with ms(1) show ?thesis by (simp add: btwValues_def)
qed

text \<open>The IBAN pattern matches at least four characters, so its loop returns.\<close>

lemma ends_prefix4:
  assumes "e \<in> set (ends (Seq (NotBehind p) (Seq (times 2 (Cls a)) (Seq (times 2 (Cls b)) r))) s i)"
  shows "i < e"
proof -
  from assms[unfolded ends_Seq_NotBehind ends_Seq_times]
  have "e \<in> set (ends r s (i + 2 + 2))" by (simp split: if_splits)
  from ends_ge[OF this] show ?thesis by simp
qed

lemma iban_progress: "e \<in> set (ends ibanPattern s i) \<Longrightarrow> i < e"
  unfolding ibanPattern_def seqs.simps by (rule ends_prefix4)

lemma ibanValues_total: "\<exists>vs. ibanValues s = Some vs"
proof -
  have "\<exists>ms. execAll ibanPattern s 0 = Some ms"
    by (rule execAll_total) (use iban_progress in blast)
  then show ?thesis by (auto simp: ibanValues_def)
qed

lemma ibanValues_accepts: "ibanValues s = Some vs \<Longrightarrow> v \<in> set vs \<Longrightarrow> ibanAccepts v"
  by (auto simp: ibanValues_def)

text \<open>Deduplication keeps, of every type and value, the first entity.\<close>

lemma findIndex_first:
  "x \<in> set xs \<Longrightarrow> P x \<Longrightarrow> \<exists>k<length xs. findIndex P xs = int k \<and> P (xs ! k)"
proof (induction xs)
  case Nil
  then show ?case by simp
next
  case (Cons a xs)
  show ?case
  proof (cases "P a")
    case True
    then show ?thesis by auto
  next
    case False
    with Cons.prems have "x \<in> set xs" by auto
    from Cons.IH[OF this Cons.prems(2)] obtain k where
      k: "k < length xs" "findIndex P xs = int k" "P (xs ! k)" by blast
    with False have "Suc k < length (a # xs) \<and> findIndex P (a # xs) = int (Suc k) \<and> P ((a # xs) ! Suc k)"
      by simp
    then show ?thesis by blast
  qed
qed

lemma uniqueEntities_subset: "set (uniqueEntities es) \<subseteq> set es"
  by (auto simp: uniqueEntities_def in_set_enumerate_eq)

lemma uniqueEntities_keeps:
  assumes "e \<in> set es"
  shows "\<exists>e'\<in>set (uniqueEntities es). e_type e' = e_type e \<and> e_value e' = e_value e"
proof -
  let ?P = "\<lambda>y. e_type y = e_type e \<and> e_value y = e_value e"
  from findIndex_first[of e es ?P, OF assms] obtain k where
    k: "k < length es" "findIndex ?P es = int k" "?P (es ! k)" by auto
  from k(3) have "(\<lambda>y. e_type y = e_type (es ! k) \<and> e_value y = e_value (es ! k)) = ?P" by simp
  then have "findIndex (\<lambda>y. e_type y = e_type (es ! k) \<and> e_value y = e_value (es ! k)) es
      = findIndex ?P es" by (rule arg_cong)
  with k(2) have "int k = findIndex (\<lambda>y. e_type y = e_type (es ! k) \<and> e_value y = e_value (es ! k)) es"
    by (simp only:)
  moreover from k(1) have "(k, es ! k) \<in> set (enumerate 0 es)" by (simp add: in_set_enumerate_eq)
  ultimately have "(k, es ! k) \<in> set (filter (\<lambda>(index, entity).
        int index = findIndex (\<lambda>e. e_type e = e_type entity \<and> e_value e = e_value entity) es)
       (enumerate 0 es))" by simp
  then have "snd (k, es ! k) \<in> set (uniqueEntities es)"
    unfolding uniqueEntities_def set_map by (rule imageI)
  with k(3) show ?thesis by auto
qed

text \<open>Each of the two tests of the IBAN pass alone rejects a BTW-shaped value: it has
  fourteen characters, and it ends in B and two digits.\<close>

lemma btwShape_endsBdd:
  assumes "rx_test btwShape v"
  shows "rx_test endsBdd v"
proof -
  from assms[unfolded btwShape_iff] have len: "length v = 14"
    and B: "v ! 11 = ch CHR ''B''" and D2: "\<forall>k<2. is_digit (v ! (12 + k))" by simp_all
  have "ends endsBdd v 11 = [11 + 1 + 2]"
    unfolding endsBdd_def seqs.simps lit_def ends_Seq_Cls_if ends_Seq_times ends.simps(7)
    using len B D2 by simp
  then have "11 \<le> length v \<and> ends endsBdd v 11 \<noteq> []" using len by simp
  then show ?thesis unfolding rx_test_iff by blast
qed

lemma btwShape_example: "rx_test btwShape (str ''NL009292056B01'')"
  by (simp add: btwShape_def rx_defs)

text \<open>
  C9. When the later passes push no entity of type \<open>iban\<close>, \<open>extractNotableData\<close>
  returns, its entities being the deduplicated list of what the BTW pass pushed, then what
  the IBAN pass pushed, then the rest. The IBAN pass pushes only values of 15 to 34
  characters that do not end in B and two digits; no entity of type \<open>iban\<close> has a
  BTW-shaped value; and every BTW-shaped part of the text that stands between non-word
  characters (or at an end of the text) is the value of an entity of type \<open>vat\<close>.
\<close>

theorem btw_is_vat_never_iban:
  assumes later: "\<forall>e\<in>set laterEntities. e_type e \<noteq> ET_iban"
  shows "\<exists>es ids btw iban.
      extractNotableData laterEntities laterIdentifiers blocks = Some (es, ids)
    \<and> btwValues (allText blocks) = Some btw \<and> ibanValues (allText blocks) = Some iban
    \<and> es = uniqueEntities (map (btwEntity (allWords blocks)) btw
              @ map (ibanEntity (allWords blocks)) iban @ laterEntities)
    \<and> (\<forall>v\<in>set iban. 15 \<le> length v \<and> length v \<le> 34 \<and> \<not> rx_test endsBdd v)
    \<and> (\<forall>e\<in>set es. e_type e = ET_iban \<longrightarrow> e_value e \<in> set iban \<and> \<not> rx_test btwShape (e_value e))
    \<and> (\<forall>pre v post. allText blocks = pre @ v @ post \<and> rx_test btwShape v
          \<and> (pre = [] \<or> \<not> is_word (last pre)) \<and> (post = [] \<or> \<not> is_word (hd post))
        \<longrightarrow> (\<exists>e\<in>set es. e_type e = ET_vat \<and> e_value e = v))"
proof -
  define s where "s = allText blocks"
  define ws where "ws = allWords blocks"
  obtain btw where btw: "btwValues s = Some btw" using btwValues_total by blast
  obtain iban where iban: "ibanValues s = Some iban" using ibanValues_total by blast
  define pushed where "pushed = map (btwEntity ws) btw @ map (ibanEntity ws) iban @ laterEntities"
  define es where "es = uniqueEntities pushed"
  define ids where "ids = uniqueIdentifiers (map (btwIdentifier ws) btw @ map (ibanIdentifier ws) iban
                       @ laterIdentifiers)"
  have r: "extractNotableData laterEntities laterIdentifiers blocks = Some (es, ids)"
    using btw iban by (simp add: extractNotableData_def Let_def s_def ws_def es_def ids_def pushed_def)
  have acc: "\<forall>v\<in>set iban. 15 \<le> length v \<and> length v \<le> 34 \<and> \<not> rx_test endsBdd v"
    using ibanValues_accepts[OF iban] by (auto simp: ibanAccepts_def)
  have never: "\<forall>e\<in>set es. e_type e = ET_iban \<longrightarrow> e_value e \<in> set iban \<and> \<not> rx_test btwShape (e_value e)"
  proof (intro ballI impI)
    fix e assume e: "e \<in> set es" "e_type e = ET_iban"
    from e(1) uniqueEntities_subset have "e \<in> set pushed" unfolding es_def by blast
    with e(2) later have "e \<in> ibanEntity ws ` set iban"
      by (auto simp: pushed_def btwEntity_def)
    then have v: "e_value e \<in> set iban" by (auto simp: ibanEntity_def)
    with acc have "15 \<le> length (e_value e)" by blast
    then have "\<not> rx_test btwShape (e_value e)" by (simp add: btwShape_iff)
    with v show "e_value e \<in> set iban \<and> \<not> rx_test btwShape (e_value e)" by simp
  qed
  have found: "\<forall>pre v post. s = pre @ v @ post \<and> rx_test btwShape v
          \<and> (pre = [] \<or> \<not> is_word (last pre)) \<and> (post = [] \<or> \<not> is_word (hd post))
        \<longrightarrow> (\<exists>e\<in>set es. e_type e = ET_vat \<and> e_value e = v)"
  proof (intro allI impI)
    fix pre v post
    assume h: "s = pre @ v @ post \<and> rx_test btwShape v
          \<and> (pre = [] \<or> \<not> is_word (last pre)) \<and> (post = [] \<or> \<not> is_word (hd post))"
    then have "\<exists>vs. btwValues s = Some vs \<and> v \<in> set vs" by (intro btw_found[of s pre v post]) simp_all
    with btw have "v \<in> set btw" by simp
    then have "btwEntity ws v \<in> set pushed" by (simp add: pushed_def)
    from uniqueEntities_keeps[OF this]
    show "\<exists>e\<in>set es. e_type e = ET_vat \<and> e_value e = v" by (simp add: es_def btwEntity_def)
  qed
  from r btw iban acc never found show ?thesis
    unfolding s_def ws_def es_def pushed_def by blast
qed

theorem btw_is_vat_never_iban_witness:
  "rx_test btwShape (str ''NL009292056B01'')
   \<and> allText [block0] = str ''NL009292056B01''
   \<and> (\<exists>es ids. extractNotableData [] [] [block0] = Some (es, ids)
        \<and> (\<exists>e\<in>set es. e_type e = ET_vat \<and> e_value e = str ''NL009292056B01'')
        \<and> \<not> (\<exists>e\<in>set es. e_type e = ET_iban \<and> e_value e = str ''NL009292056B01''))"
proof -
  have t: "allText [block0] = str ''NL009292056B01''"
    by (simp add: allText_def joinLines_def block0_def)
  from btw_is_vat_never_iban[of "[]" "[]" "[block0]"] obtain es ids where
    r: "extractNotableData [] [] [block0] = Some (es, ids)"
    and n: "\<forall>e\<in>set es. e_type e = ET_iban \<longrightarrow> \<not> rx_test btwShape (e_value e)"
    and f: "\<forall>pre v post. allText [block0] = pre @ v @ post \<and> rx_test btwShape v
          \<and> (pre = [] \<or> \<not> is_word (last pre)) \<and> (post = [] \<or> \<not> is_word (hd post))
        \<longrightarrow> (\<exists>e\<in>set es. e_type e = ET_vat \<and> e_value e = v)"
    by auto
  from f[rule_format, of "[]" "str ''NL009292056B01''" "[]"] t btwShape_example
  have "\<exists>e\<in>set es. e_type e = ET_vat \<and> e_value e = str ''NL009292056B01''" by simp
  moreover from n btwShape_example
  have "\<not> (\<exists>e\<in>set es. e_type e = ET_iban \<and> e_value e = str ''NL009292056B01'')" by auto
  ultimately show ?thesis using r t btwShape_example by blast
qed

text \<open>A BTW number followed by a space and a letter: the BTW pass pushes the number as
  \<open>vat\<close>, and the IBAN pass pushes the number with the letter appended as \<open>iban\<close>,
  which is not BTW-shaped.\<close>

lemma rx_exec_here:
  "ends r s k \<noteq> [] \<Longrightarrow> k \<le> length s \<Longrightarrow> rx_exec r s k = Some (k, hd (ends r s k))"
  unfolding rx_exec_def by (simp add: upt_conv_Cons del: upt_Suc)

lemma rx_exec_end: "ends r s (length s) = [] \<Longrightarrow> rx_exec r s (length s) = None"
  unfolding rx_exec_def by simp

lemma iban_ends0: "ends ibanPattern (str ''NL009292056B01 X'') 0 = [16]"
  by (simp add: ibanPattern_def rx_defs)

lemma iban_ends16: "ends ibanPattern (str ''NL009292056B01 X'') 16 = []"
  by (simp add: ibanPattern_def rx_defs)

lemma iban_covering_btw:
  "ibanValues (str ''NL009292056B01 X'') = Some [str ''NL009292056B01X'']"
proof -
  have l: "length (str ''NL009292056B01 X'') = 16" by (simp add: str_def)
  have x0: "rx_exec ibanPattern (str ''NL009292056B01 X'') 0 = Some (0, 16)"
    using rx_exec_here[of ibanPattern "str ''NL009292056B01 X''" 0] by (simp add: iban_ends0)
  have x16: "rx_exec ibanPattern (str ''NL009292056B01 X'') 16 = None"
    using rx_exec_end[of ibanPattern "str ''NL009292056B01 X''"] by (simp add: iban_ends16 l)
  have "execAll ibanPattern (str ''NL009292056B01 X'') 0 = Some [(0, 16)]"
    by (simp add: execAll.simps[of _ _ 0] execAll.simps[of _ _ 16] x0 x16 l)
  moreover have "filter (\<lambda>c. \<not> is_space c) (slice (str ''NL009292056B01 X'') 0 16) = str ''NL009292056B01X''"
    by (simp add: slice_def str_def is_space_def)
  moreover have "ibanAccepts (str ''NL009292056B01X'')"
    by (simp add: ibanAccepts_def endsBdd_def rx_defs)
  ultimately show ?thesis by (simp add: ibanValues_def)
qed

lemma iban_next_to_btw:
  "\<exists>es ids. extractNotableData [] [] [block1] = Some (es, ids)
     \<and> (\<exists>e\<in>set es. e_type e = ET_vat \<and> e_value e = str ''NL009292056B01'')
     \<and> (\<exists>e\<in>set es. e_type e = ET_iban \<and> e_value e = str ''NL009292056B01X'')"
proof -
  let ?s = "str ''NL009292056B01 X''"
  have t: "allText [block1] = ?s" by (simp add: allText_def joinLines_def block1_def)
  have "?s = [] @ str ''NL009292056B01'' @ str '' X''" by (simp add: str_def)
  from btw_found[OF this btwShape_example] obtain btw where
    btw: "btwValues ?s = Some btw" "str ''NL009292056B01'' \<in> set btw"
    by (auto simp: str_def is_word_def is_upper_def is_lower_def is_digit_def)
  let ?pushed = "map (btwEntity (allWords [block1])) btw
     @ map (ibanEntity (allWords [block1])) [str ''NL009292056B01X''] @ []"
  have r: "extractNotableData [] [] [block1] = Some (uniqueEntities ?pushed,
      uniqueIdentifiers (map (btwIdentifier (allWords [block1])) btw
        @ map (ibanIdentifier (allWords [block1])) [str ''NL009292056B01X''] @ []))"
    by (simp add: extractNotableData_def Let_def t btw(1) iban_covering_btw)
  have "btwEntity (allWords [block1]) (str ''NL009292056B01'') \<in> set ?pushed" using btw(2) by simp
  from uniqueEntities_keeps[OF this]
  have a: "\<exists>e\<in>set (uniqueEntities ?pushed). e_type e = ET_vat \<and> e_value e = str ''NL009292056B01''"
    by (simp add: btwEntity_def)
  have "ibanEntity (allWords [block1]) (str ''NL009292056B01X'') \<in> set ?pushed" by simp
  from uniqueEntities_keeps[OF this]
  have b: "\<exists>e\<in>set (uniqueEntities ?pushed). e_type e = ET_iban \<and> e_value e = str ''NL009292056B01X''"
    by (simp add: ibanEntity_def)
  from r a b show ?thesis by blast
qed

end
